theory Spec2Isabelle
  imports Main "HOL-Library.Sublist" "HOL-Library.Multiset"
begin

section \<open>Values shared by both source files\<close>

text \<open>
  The JavaScript values that cross the interfaces modelled here: action parameters,
  handler results and thrown values. \<open>JError\<close> is an \<open>Error\<close> object with its message;
  the \<open>TypeError\<close> the runtime raises when a property of \<open>undefined\<close> is read is one.
\<close>

datatype jsval = JUndefined | JNull | JBool bool | JNum int | JStr string | JError string

text \<open>
  How an asynchronous call ends: it returns a value, it throws (a rejected promise), or its
  promise never settles.
\<close>

datatype 'a completion = Returned 'a | Raised jsval | Pending

section \<open>Command registry: \<open>schema/command/index.ts\<close>\<close>

datatype CommandType = Help | Action | Project | Package | Config | Script

text \<open>
  \<open>MetaCommand\<close> (declared in \<open>meta-types\<close>): the fields this file reads. \<open>hidden\<close>
  is optional in the source and only tested for truthiness, so absent is \<open>False\<close>.
  \<open>lastUsed\<close> is an optional \<open>Date\<close>, read through \<open>getTime()\<close>. The handler is
  contributed code: it runs on a world \<open>'w\<close> of its own and either returns (\<open>None\<close>)
  or throws a value.
\<close>

record 'w MetaCommand =
  cmd_id :: string
  cmd_type :: CommandType
  label :: string
  description :: "string option"
  cmd_hidden :: bool
  lastUsed :: "int option"
  handler :: "('w \<Rightarrow> jsval option \<times> 'w) option"

text \<open>
  An \<open>elasticlunr\<close> index with \<open>setRef('id')\<close>, \<open>addField('label')\<close> and
  \<open>saveDocument(false)\<close> keeps, per added document, its ref and its label: the list of
  such pairs in insertion order. The library's \<open>search\<close> is a parameter
  \<open>engine index query\<close> returning the refs of the hits in rank order.
\<close>

type_synonym lunr_index = "(string \<times> string) list"
type_synonym lunr_search = "lunr_index \<Rightarrow> string \<Rightarrow> string list"

record 'w registry =
  commands :: "'w MetaCommand list"
  commandsMap :: "string \<rightharpoonup> 'w MetaCommand"
  searchIndexes :: "CommandType \<Rightarrow> lunr_index"
  globalSearchIndex :: lunr_index

definition createIndex :: lunr_index where
  "createIndex = []"

definition addDoc :: "'w MetaCommand \<Rightarrow> lunr_index \<Rightarrow> lunr_index" where
  "addDoc cmd idx = idx @ [(cmd_id cmd, label cmd)]"

text \<open>The module-level declarations before any \<open>addCommand\<close>.\<close>

definition empty_registry :: "'w registry" where
  "empty_registry =
     \<lparr> commands = [], commandsMap = Map.empty,
       searchIndexes = (\<lambda>_. createIndex), globalSearchIndex = createIndex \<rparr>"

definition addCommand :: "'w MetaCommand \<Rightarrow> 'w registry \<Rightarrow> 'w registry" where
  "addCommand cmd r =
     (let r1 = r\<lparr> commands := commands r @ [cmd],
                  commandsMap := (commandsMap r)(cmd_id cmd \<mapsto> cmd) \<rparr>
      in if \<not> cmd_hidden cmd
         then r1\<lparr> searchIndexes :=
                    (searchIndexes r1)(cmd_type cmd := addDoc cmd (searchIndexes r1 (cmd_type cmd))),
                  globalSearchIndex := addDoc cmd (globalSearchIndex r1) \<rparr>
         else r1)"

definition typeWords :: "(char \<times> CommandType) list" where
  "typeWords =
     [(CHR ''?'', Help), (CHR ''>'', Action), (CHR ''<'', Project),
      (CHR ''&'', Package), (CHR ''~'', Config), (CHR ''$'', Script)]"

text \<open>
  \<open>typeWordReg\<close> is the alternation of the escaped keys of \<open>typeWords\<close>, anchored at
  the start: it matches exactly when the first character is one of the keys, and
  captures that character.
\<close>

definition getSeachType :: "string \<Rightarrow> CommandType option" where
  "getSeachType text = (case text of [] \<Rightarrow> None | c # _ \<Rightarrow> map_of typeWords c)"

text \<open>The comparator handed to \<open>list.sort\<close> in \<open>getRecentCommands\<close>.\<close>

definition recent_compare :: "'w MetaCommand \<Rightarrow> 'w MetaCommand \<Rightarrow> int" where
  "recent_compare a b =
     (case (lastUsed a, lastUsed b) of
        (Some ta, Some tb) \<Rightarrow> tb - ta
      | (Some ta, None) \<Rightarrow> - 1
      | (None, Some tb) \<Rightarrow> 1
      | (None, None) \<Rightarrow> 0)"

text \<open>
  The order the comparator stands for: \<open>a\<close> may come before \<open>b\<close> when the comparator
  does not return a positive number.
\<close>

definition ranks_before :: "'w MetaCommand \<Rightarrow> 'w MetaCommand \<Rightarrow> bool" where
  "ranks_before a b = (recent_compare a b \<le> 0)"

text \<open>
  \<open>Array.prototype.sort\<close> with a comparator, as ECMAScript 2019 specifies it: the result
  is ordered by the comparator and elements that compare equal keep their order. The
  stable insertion sort below computes that list.
\<close>

fun sort_insert :: "('a \<Rightarrow> 'a \<Rightarrow> int) \<Rightarrow> 'a \<Rightarrow> 'a list \<Rightarrow> 'a list" where
  "sort_insert cmp x [] = [x]"
| "sort_insert cmp x (y # ys) =
     (if cmp x y \<le> 0 then x # y # ys else y # sort_insert cmp x ys)"

fun array_sort :: "('a \<Rightarrow> 'a \<Rightarrow> int) \<Rightarrow> 'a list \<Rightarrow> 'a list" where
  "array_sort cmp [] = []"
| "array_sort cmp (x # xs) = sort_insert cmp x (array_sort cmp xs)"

text \<open>The two filters of \<open>getRecentCommands\<close>, by whether a type was given.\<close>

definition recent_filter :: "CommandType option \<Rightarrow> 'w MetaCommand \<Rightarrow> bool" where
  "recent_filter type c =
     (case type of
        Some t \<Rightarrow> \<not> cmd_hidden c \<and> cmd_type c = t
      | None \<Rightarrow> \<not> cmd_hidden c \<and> cmd_type c \<noteq> Help)"

definition getRecentCommands ::
  "CommandType option \<Rightarrow> 'w MetaCommand list \<Rightarrow> 'w MetaCommand list" where
  "getRecentCommands type cmds =
     (let list = filter (recent_filter type) cmds
      in take 20 (array_sort recent_compare list))"

text \<open>
  The query after \<open>searchCommands\<close> has removed a recognised type word
  (\<open>text.substr(1)\<close>), or the query itself when it has none.
\<close>

definition strip_type_word :: "string \<Rightarrow> string" where
  "strip_type_word text = (case getSeachType text of Some t \<Rightarrow> drop 1 text | None \<Rightarrow> text)"

text \<open>
  \<open>searchCommands\<close>. The recent list holds commands; a search maps each hit through
  \<open>commandsMap.get\<close>, which is \<open>undefined\<close> (\<open>None\<close>) for an unknown ref.
\<close>

definition searchCommands ::
  "lunr_search \<Rightarrow> 'w registry \<Rightarrow> string \<Rightarrow> 'w MetaCommand option list" where
  "searchCommands engine r text0 =
     (let type = getSeachType text0;
          searchIndex = (case type of Some t \<Rightarrow> searchIndexes r t | None \<Rightarrow> globalSearchIndex r);
          text = strip_type_word text0
      in if length text = 0 then map Some (getRecentCommands type (commands r))
         else map (commandsMap r) (engine searchIndex text))"

text \<open>
  What \<open>runCommand\<close> touches outside the registry: the \<open>consola\<close> warnings, the events
  published on \<open>ctx.pubsub\<close> (channel \<open>commandRan\<close>, payload the command and the client
  id), and the world the handler runs on.
\<close>

record 'w cmd_env =
  warnings :: "string list"
  commandRan_events :: "('w MetaCommand \<times> string) list"
  cmd_world :: 'w

definition runCommand ::
  "string \<Rightarrow> string \<Rightarrow> 'w registry \<Rightarrow> 'w cmd_env
     \<Rightarrow> (jsval + 'w MetaCommand option) \<times> 'w cmd_env" where
  "runCommand i clientId r env =
     (case find (\<lambda>c. cmd_id c = i) (commands r) of
        None \<Rightarrow> (Inr None, env\<lparr> warnings := warnings env @ [''Command '' @ i @ '' not found''] \<rparr>)
      | Some command \<Rightarrow>
          (let ran = (case handler command of
                        None \<Rightarrow> (None, env)
                      | Some h \<Rightarrow> (case h (cmd_world env) of
                                    (thrown, w) \<Rightarrow> (thrown, env\<lparr> cmd_world := w \<rparr>)))
           in case ran of
                (Some e, env1) \<Rightarrow> (Inl e, env1)
              | (None, env1) \<Rightarrow>
                  (Inr (Some command),
                   env1\<lparr> commandRan_events := commandRan_events env1 @ [(command, clientId)] \<rparr>)))"

text \<open>The commands the module adds while it loads: the help entries, then two hidden ones.\<close>

definition type_name :: "CommandType \<Rightarrow> string" where
  "type_name t = (case t of Help \<Rightarrow> ''help'' | Action \<Rightarrow> ''action'' | Project \<Rightarrow> ''project''
                   | Package \<Rightarrow> ''package'' | Config \<Rightarrow> ''config'' | Script \<Rightarrow> ''script'')"

definition builtin_commands :: "'w MetaCommand list" where
  "builtin_commands =
     map (\<lambda>(word, t). \<lparr> cmd_id = [word], cmd_type = Help, label = [word],
                        description = Some (''guijs.find.help.'' @ type_name t),
                        cmd_hidden = False, lastUsed = None, handler = None \<rparr>)
         (filter (\<lambda>(word, t). word \<noteq> CHR ''?'') typeWords)
     @ [\<lparr> cmd_id = ''find'', cmd_type = Action, label = ''Find'', description = None,
          cmd_hidden = True, lastUsed = None, handler = None \<rparr>,
        \<lparr> cmd_id = ''command'', cmd_type = Action, label = ''Command'', description = None,
          cmd_hidden = True, lastUsed = None, handler = None \<rparr>]"

text \<open>The registry after a sequence of \<open>addCommand\<close> calls on the fresh module state.\<close>

definition registry_of :: "'w MetaCommand list \<Rightarrow> 'w registry" where
  "registry_of cmds = foldl (\<lambda>r c. addCommand c r) empty_registry cmds"

section \<open>Plugin connector: \<open>connectors/plugins.js\<close>\<close>

definition PROGRESS_ID :: string where
  "PROGRESS_ID = ''plugin-installation''"

definition CLI_SERVICE :: string where
  "CLI_SERVICE = ''@vue/cli-service''"

definition VUEDESK_BUILD_BUNDLE :: string where
  "VUEDESK_BUILD_BUNDLE = ''vuedesk-build-bundle''"

subsection \<open>Data\<close>

text \<open>
  The plugin objects \<open>list\<close> builds. Only the entries made from \<open>pkg.vuedesk.plugins\<close>
  carry the key \<open>hidden\<close>, always \<open>true\<close>; an absent key is \<open>False\<close> here, so that
  \<open>deepEqual\<close> on plugin arrays is equality of plugin lists.
\<close>

record plugin =
  plugin_id :: string
  versionRange :: string
  official :: bool
  installed :: bool
  website :: "string option"
  baseDir :: string
  plugin_hidden :: bool

record vuedesk_config =
  vuedesk_version :: string
  vuedesk_plugins :: "string list"

text \<open>
  The fields of \<open>package.json\<close> that are read. A dependency object is the list of its
  entries in key order (\<open>Object.keys\<close>); \<open>resolveFrom\<close> and \<open>vuePlugins_ui\<close> are
  \<open>pkg.vuePlugins.resolveFrom\<close> and \<open>pkg.vuePlugins.ui\<close> (when it is an array).
\<close>

record package_json =
  devDependencies :: "(string \<times> string) list option"
  dependencies :: "(string \<times> string) list option"
  resolveFrom :: "string option"
  vuePlugins_ui :: "string list option"
  vuedesk :: "vuedesk_config option"

record project =
  project_id :: string
  project_path :: string

record version_info =
  current :: string
  wanted :: string
  localPath :: "string option"

text \<open>
  Contributed callbacks run on the world \<open>'w\<close>. A hook handler receives the hook's arguments
  and returns or throws; an action handler receives \<open>params\<close> and, once awaited, gives a
  result (\<open>Inr\<close>) or throws (\<open>Inl\<close>).
\<close>

type_synonym 'w hook_fn = "project option list \<Rightarrow> 'w \<Rightarrow> jsval option \<times> 'w"
type_synonym 'w action_fn = "jsval \<Rightarrow> 'w \<Rightarrow> (jsval + jsval) \<times> 'w"

text \<open>The members of a \<open>PluginApi\<close> instance that this file reads or writes.\<close>

record 'w plugin_api =
  api_project :: project
  api_cwd :: string
  api_pluginId :: "string option"
  api_views :: "string list"
  ipcHandlers :: "nat list"
  hooks :: "string \<rightharpoonup> 'w hook_fn list"
  actions :: "string \<rightharpoonup> 'w action_fn list"
  clientAddons :: "string list"
  widgetDefs :: "string list"

text \<open>
  What \<open>loadModule(file, cwd, true)\<close> gives: nothing usable (it threw, or the value is
  falsy), a value that is not a function, or a function. The function registers into the
  \<open>PluginApi\<close> it is given and may throw part-way.
\<close>

datatype 'w module_load =
    ModuleMissing
  | ModuleNotFunction
  | ModuleFunction "'w plugin_api \<Rightarrow> jsval option \<times> 'w plugin_api"

text \<open>
  The collaborators whose answers the connector reads: the other connectors, the utility
  packages, the file system and the \<open>PluginApi\<close> constructor.
\<close>

record 'w collaborators =
  readPackage :: "string \<Rightarrow> package_json"
  path_resolve :: "string list \<Rightarrow> string"
  isPlugin :: "string \<Rightarrow> bool"
  isOfficialPlugin :: "string \<Rightarrow> bool"
  getPluginLink :: "string \<Rightarrow> string option"
  getPath :: "string \<Rightarrow> string \<Rightarrow> string"
  existsSync :: "string \<Rightarrow> bool"
  loadModule :: "string \<Rightarrow> string \<Rightarrow> 'w module_load"
  findByPath :: "string \<Rightarrow> project option"
  getType :: "project \<Rightarrow> string"
  getLast :: "project option"
  getCurrent :: "project option"
  getCurrentView :: "string option"
  newPluginApi :: "plugin list \<Rightarrow> string \<Rightarrow> project \<Rightarrow> bool \<Rightarrow> 'w plugin_api"
  getVersion :: "plugin option \<Rightarrow> version_info"
  dirname :: string

text \<open>The calls made to the collaborators that keep state, in the order they are made.\<close>

datatype ui_call =
    ViewsRemove string
  | IpcOff nat
  | SharedDataUnWatchAll string
  | ClientAddonsClear
  | SuggestionsClear
  | WidgetsReset
  | ClientAddonsAdd string
  | ViewsAdd string string
  | WidgetsRegisterDefinition string string
  | ViewsOpen string
  | WidgetsLoad
  | LocalesLoadFolder string
  | LogsAdd string string
  | Notify string string
  | SetProgress string "string list"
  | InvalidatePackage string

datatype fs_op = FsRemove string | FsCopy string string "string list"

datatype pm_op = UpdatePackage string string

datatype pubsub_event =
    PluginActionCalled string jsval
  | PluginActionResolved string jsval "jsval list" "jsval list"

text \<open>
  The module-level variables (\<open>pluginsStore\<close>, \<open>pluginApiInstances\<close>, \<open>pkgStore\<close>,
  \<open>currentPluginId\<close>), the value of \<open>cwd.get()\<close>, the progress ids in flight, the lines
  written with \<open>log\<close>, the calls made to collaborators, and the world of the contributed
  callbacks.
\<close>

record 'w server =
  cwd :: string
  pluginsStore :: "string \<rightharpoonup> plugin list"
  pkgStore :: "string \<rightharpoonup> (string \<times> package_json)"
  pluginApiInstances :: "string \<rightharpoonup> 'w plugin_api"
  currentPluginId :: "string option"
  in_flight :: "string list"
  log_lines :: "string list"
  ui_calls :: "ui_call list"
  fs_ops :: "fs_op list"
  pm_ops :: "pm_op list"
  published :: "pubsub_event list"
  world :: 'w

subsection \<open>Discovery: \<open>list\<close>, \<open>findPlugins\<close>, \<open>getPlugins\<close>, \<open>findOne\<close>\<close>

definition getLink :: "'w collaborators \<Rightarrow> string \<Rightarrow> string option" where
  "getLink env i = (if i = CLI_SERVICE then Some ''https://cli.vuejs.org/'' else getPluginLink env i)"

definition findPlugins :: "'w collaborators \<Rightarrow> (string \<times> string) list \<Rightarrow> string \<Rightarrow> plugin list" where
  "findPlugins env deps file =
     map (\<lambda>(i, range).
            \<lparr> plugin_id = i, versionRange = range,
              official = (isOfficialPlugin env i \<or> i = CLI_SERVICE),
              installed = existsSync env (getPath env i file),
              website = getLink env i, baseDir = file, plugin_hidden = False \<rparr>)
         (filter (\<lambda>(i, range). isPlugin env i \<or> i = CLI_SERVICE) deps)"

definition getPlugins :: "'w server \<Rightarrow> string \<Rightarrow> plugin list" where
  "getPlugins s file = (case pluginsStore s file of None \<Rightarrow> [] | Some plugins \<Rightarrow> plugins)"

definition findOne :: "string \<Rightarrow> string \<Rightarrow> 'w server \<Rightarrow> plugin option \<times> 'w server" where
  "findOne i file s =
     (case find (\<lambda>p. plugin_id p = i) (getPlugins s file) of
        None \<Rightarrow> (None, s\<lparr> log_lines := log_lines s @ [''Plugin Not found '' @ i] \<rparr>)
      | Some plugin \<Rightarrow> (Some plugin, s))"

text \<open>
  Lines 64 to 70 of \<open>list\<close>: the manifest, re-read from \<open>vuePlugins.resolveFrom\<close> when that
  is set (a non-empty string), with the folder it was read in.
\<close>

definition resolve_package :: "'w collaborators \<Rightarrow> string \<Rightarrow> 'w server \<Rightarrow> string \<times> package_json" where
  "resolve_package env file s =
     (let pkg = readPackage env file
      in case resolveFrom pkg of
           None \<Rightarrow> (cwd s, pkg)
         | Some rf \<Rightarrow>
             (if rf = [] then (cwd s, pkg)
              else (let pkgContext = path_resolve env [cwd s, rf]
                    in (pkgContext, readPackage env pkgContext))))"

text \<open>
  Lines 98 to 104: \<open>findIndex\<close>, \<open>splice\<close>, \<open>unshift\<close> move the first plugin that is the
  CLI service or the build bundle to the front.
\<close>

definition put_service_first :: "plugin list \<Rightarrow> plugin list" where
  "put_service_first plugins =
     (let is_service = (\<lambda>p. plugin_id p \<in> set [CLI_SERVICE, VUEDESK_BUILD_BUNDLE])
      in case dropWhile (\<lambda>p. \<not> is_service p) plugins of
           [] \<Rightarrow> plugins
         | service # rest \<Rightarrow> service # takeWhile (\<lambda>p. \<not> is_service p) plugins @ rest)"

text \<open>Lines 73 to 104: the plugin array built from the manifest.\<close>

definition collect_plugins :: "'w collaborators \<Rightarrow> package_json \<Rightarrow> string \<Rightarrow> plugin list" where
  "collect_plugins env pkg file =
     (let found = findPlugins env (case devDependencies pkg of None \<Rightarrow> [] | Some d \<Rightarrow> d) file
                  @ findPlugins env (case dependencies pkg of None \<Rightarrow> [] | Some d \<Rightarrow> d) file;
          plugins =
            (case vuedesk pkg of
               None \<Rightarrow> found
             | Some vd \<Rightarrow>
                 found
                 @ [\<lparr> plugin_id = VUEDESK_BUILD_BUNDLE, versionRange = vuedesk_version vd,
                      official = True, installed = True, website = None, baseDir = file,
                      plugin_hidden = False \<rparr>]
                 @ map (\<lambda>i. \<lparr> plugin_id = ''@vue/cli-plugin-'' @ i,
                               versionRange = vuedesk_version vd, official = True,
                               installed = True, website = None, baseDir = file,
                               plugin_hidden = True \<rparr>)
                       (vuedesk_plugins vd))
      in put_service_first plugins)"

subsection \<open>Runtime instances: \<open>getApi\<close>, \<open>callHook\<close>, \<open>runPluginApi\<close>, \<open>resetPluginApi\<close>\<close>

definition getApi :: "'w server \<Rightarrow> string \<Rightarrow> 'w plugin_api option" where
  "getApi s folder = pluginApiInstances s folder"

text \<open>\<open>fns.forEach(fn => fn(...args))\<close>: a handler that throws ends the loop.\<close>

fun run_hooks :: "'w hook_fn list \<Rightarrow> project option list \<Rightarrow> 'w \<Rightarrow> jsval option \<times> 'w" where
  "run_hooks [] args w = (None, w)"
| "run_hooks (fn # fns) args w =
     (case fn args w of
        (Some e, w1) \<Rightarrow> (Some e, w1)
      | (None, w1) \<Rightarrow> run_hooks fns args w1)"

text \<open>
  \<open>callHook\<close> returns nothing; the first component is the value thrown, if any. Reading
  \<open>fns.length\<close> for a hook id the instance has no entry for is a \<open>TypeError\<close>.
\<close>

definition callHook ::
  "string \<Rightarrow> project option list \<Rightarrow> string \<Rightarrow> 'w server \<Rightarrow> jsval option \<times> 'w server" where
  "callHook i args file s =
     (case getApi s file of
        None \<Rightarrow> (None, s)
      | Some pluginApi \<Rightarrow>
          (case hooks pluginApi i of
             None \<Rightarrow> (Some (JError ''TypeError: cannot read length of undefined''), s)
           | Some fns \<Rightarrow>
               (case run_hooks fns args (world s) of
                  (thrown, w) \<Rightarrow>
                    (thrown, s\<lparr> log_lines := log_lines s @ [''Hook '' @ i], world := w \<rparr>))))"

definition message_of :: "jsval \<Rightarrow> string" where
  "message_of e = (case e of JError m \<Rightarrow> m | _ \<Rightarrow> ''undefined'')"

text \<open>
  \<open>runPluginApi\<close> mutates the \<open>PluginApi\<close> it is given; the model returns it. The first
  component is a value thrown out of the function: its \<open>catch\<close> block reads \<open>e.message\<close>,
  which is itself a \<open>TypeError\<close> when the module threw \<open>null\<close> or \<open>undefined\<close>.
\<close>

definition runPluginApi ::
  "'w collaborators \<Rightarrow> string \<Rightarrow> string \<Rightarrow> 'w plugin_api \<Rightarrow> string \<Rightarrow> 'w server
     \<Rightarrow> jsval option \<times> 'w plugin_api \<times> 'w server" where
  "runPluginApi env i file pluginApi cwd0 s =
     (let loaded =
        (case loadModule env file cwd0 of
           ModuleMissing \<Rightarrow> (None, pluginApi, s)
         | ModuleNotFunction \<Rightarrow>
             (None, pluginApi,
              s\<lparr> log_lines := log_lines s @ [''ERROR while loading plugin API: no function exported, for '' @ file],
                 ui_calls := ui_calls s
                   @ [LogsAdd ''error'' (''An error occured while loading '' @ file @ '': no function exported'')] \<rparr>)
         | ModuleFunction module \<Rightarrow>
             (case module (pluginApi\<lparr> api_pluginId := Some i \<rparr>) of
                (None, api1) \<Rightarrow>
                  (None, api1\<lparr> api_pluginId := None \<rparr>,
                   s\<lparr> log_lines := log_lines s @ [''Plugin API loaded for '' @ file] \<rparr>)
              | (Some e, api1) \<Rightarrow>
                  (let s1 = s\<lparr> log_lines := log_lines s @ [''ERROR while loading plugin API for '' @ file] \<rparr>
                   in if e = JNull \<or> e = JUndefined
                      then (Some (JError ''TypeError: cannot read message''), api1, s1)
                      else (None, api1\<lparr> api_pluginId := None \<rparr>,
                            s1\<lparr> ui_calls := ui_calls s1
                                  @ [LogsAdd ''error''
                                       (''An error occured while loading '' @ file @ '': '' @ message_of e)] \<rparr>))))
      in case loaded of
           (Some e, api1, s1) \<Rightarrow> (Some e, api1, s1)
         | (None, api1, s1) \<Rightarrow>
             (let folder = (if existsSync env i then i else getPath env i cwd0)
              in (None, api1, s1\<lparr> ui_calls := ui_calls s1 @ [LocalesLoadFolder folder] \<rparr>)))"

text \<open>
  The loops of \<open>resetPluginApi\<close> over \<open>runPluginApi\<close>: each target is a pair of id and
  module file, the folder is \<open>pluginApi.cwd\<close>, and a throw ends the loop.
\<close>

fun runPluginApi_each ::
  "'w collaborators \<Rightarrow> (string \<times> string) list \<Rightarrow> 'w plugin_api \<Rightarrow> 'w server
     \<Rightarrow> jsval option \<times> 'w plugin_api \<times> 'w server" where
  "runPluginApi_each env [] pluginApi s = (None, pluginApi, s)"
| "runPluginApi_each env ((i, file) # rest) pluginApi s =
     (case runPluginApi env i file pluginApi (api_cwd pluginApi) s of
        (Some e, api1, s1) \<Rightarrow> (Some e, api1, s1)
      | (None, api1, s1) \<Rightarrow> runPluginApi_each env rest api1 s1)"

text \<open>
  The \<open>PluginApi\<close> held in \<open>pluginApiInstances\<close> is the object the module functions
  mutate; \<open>store_api\<close> writes the mutated object back under its key.
\<close>

definition store_api :: "string \<Rightarrow> 'w plugin_api \<Rightarrow> 'w server \<Rightarrow> 'w server" where
  "store_api file pluginApi s =
     s\<lparr> pluginApiInstances := (pluginApiInstances s)(file \<mapsto> pluginApi) \<rparr>"

text \<open>Lines 162 to 176: the clean-up of the previous instance, with its project id.\<close>

definition reset_cleanup :: "string \<Rightarrow> bool \<Rightarrow> 'w server \<Rightarrow> string option \<times> 'w server" where
  "reset_cleanup file lightApi0 s =
     (let pluginApi = pluginApiInstances s file;
          projectId = map_option (\<lambda>a. project_id (api_project a)) pluginApi;
          s1 = (case pluginApi of
                  None \<Rightarrow> s
                | Some a \<Rightarrow>
                    s\<lparr> ui_calls := ui_calls s @ map ViewsRemove (api_views a)
                                              @ map IpcOff (ipcHandlers a) \<rparr>);
          s2 = (if \<not> lightApi0
                then s1\<lparr> ui_calls := ui_calls s1
                          @ (case projectId of
                               None \<Rightarrow> []
                             | Some p \<Rightarrow> (if p = [] then [] else [SharedDataUnWatchAll p]))
                          @ [ClientAddonsClear, SuggestionsClear, WidgetsReset] \<rparr>
                else s1)
      in (projectId, s2))"

text \<open>
  Lines 230 to 256, after the instance is populated: the hooks, unless \<open>lightApi\<close>. A throw
  here happens inside the deferred callback, before \<open>resolve\<close>: the promise never settles.
\<close>

definition reset_hooks ::
  "'w collaborators \<Rightarrow> string \<Rightarrow> bool \<Rightarrow> string option \<Rightarrow> project \<Rightarrow> 'w server
     \<Rightarrow> bool completion \<times> 'w server" where
  "reset_hooks env file lightApi0 projectId project s =
     (if lightApi0 then (Returned True, s)
      else
        (let hooked =
           (if projectId \<noteq> Some (project_id project)
            then callHook ''projectOpen'' [Some project, getLast env] file s
            else (case callHook ''pluginReload'' [Some project] file s of
                    (Some e, s1) \<Rightarrow> (Some e, s1)
                  | (None, s1) \<Rightarrow>
                      (None, case getCurrentView env of
                               None \<Rightarrow> s1
                             | Some v \<Rightarrow> s1\<lparr> ui_calls := ui_calls s1 @ [ViewsOpen v] \<rparr>)))
         in case hooked of
              (Some e, s1) \<Rightarrow> (Pending, s1)
            | (None, s1) \<Rightarrow> (Returned True, s1\<lparr> ui_calls := ui_calls s1 @ [WidgetsLoad] \<rparr>)))"

text \<open>
  Lines 195 to 228: the new instance is stored, then the built-in module, every plugin's
  module and the local modules of \<open>vuePlugins.ui\<close> run on it (the local loop passes the
  same id and module file at every turn), and its client addons, views and widget
  definitions are registered. Destructuring \<open>pkgStore.get(file)\<close> when there is no entry
  is a \<open>TypeError\<close>.
\<close>

definition reset_rebuild ::
  "'w collaborators \<Rightarrow> string \<Rightarrow> bool \<Rightarrow> string option \<Rightarrow> project \<Rightarrow> plugin list \<Rightarrow> 'w server
     \<Rightarrow> bool completion \<times> 'w server" where
  "reset_rebuild env file lightApi0 projectId project plugins s =
     (let api0 = newPluginApi env plugins file project lightApi0;
          s0 = store_api file api0 s
      in case runPluginApi env ''@guijs/builtin-plugin'' ''@guijs/builtin-plugin/ui'' api0
                (dirname env) s0 of
           (Some e, api1, s1) \<Rightarrow> (Pending, store_api file api1 s1)
         | (None, api1, s1) \<Rightarrow>
        (case runPluginApi_each env (map (\<lambda>p. (plugin_id p, plugin_id p @ ''/ui'')) plugins)
                api1 s1 of
           (Some e, api2, s2) \<Rightarrow> (Pending, store_api file api2 s2)
         | (None, api2, s2) \<Rightarrow>
        (case pkgStore s2 file of
           None \<Rightarrow> (Pending, store_api file api2 s2)
         | Some (pkgContext, pkg) \<Rightarrow>
        (case runPluginApi_each env
                (case vuePlugins_ui pkg of
                   None \<Rightarrow> []
                 | Some files \<Rightarrow> map (\<lambda>f. (pkgContext, pkgContext @ ''/ui'')) files)
                api2 s2 of
           (Some e, api3, s3) \<Rightarrow> (Pending, store_api file api3 s3)
         | (None, api3, s3) \<Rightarrow>
             (let s4 = store_api file api3 s3;
                  s5 = s4\<lparr> ui_calls := ui_calls s4
                            @ map ClientAddonsAdd (clientAddons api3)
                            @ map (\<lambda>v. ViewsAdd v (project_id project)) (api_views api3)
                            @ map (\<lambda>d. WidgetsRegisterDefinition d (project_id project))
                                  (widgetDefs api3) \<rparr>
              in reset_hooks env file lightApi0 projectId project s5)))))"

definition resetPluginApi ::
  "'w collaborators \<Rightarrow> string \<Rightarrow> bool \<Rightarrow> 'w server \<Rightarrow> bool completion \<times> 'w server" where
  "resetPluginApi env file lightApi0 s =
     (case reset_cleanup file lightApi0
             (s\<lparr> log_lines := log_lines s @ [''Plugin API reloading... '' @ file] \<rparr>) of
        (projectId, s2) \<Rightarrow>
          (case findByPath env file of
             None \<Rightarrow> (Returned False, s2)
           | Some project \<Rightarrow>
               (let plugins = getPlugins s2 file
                in if getType env project \<noteq> ''vue'' then (Returned False, s2)
                   else reset_rebuild env file lightApi0 projectId project plugins s2)))"

subsection \<open>\<open>list\<close>\<close>

record list_options =
  resetApi :: bool
  lightApi :: bool
  autoLoadApi :: bool

definition default_list_options :: list_options where
  "default_list_options = \<lparr> resetApi = True, lightApi = False, autoLoadApi = True \<rparr>"

definition list_plugins ::
  "'w collaborators \<Rightarrow> string \<Rightarrow> list_options \<Rightarrow> 'w server
     \<Rightarrow> plugin list completion \<times> 'w server" where
  "list_plugins env file opts s =
     (case resolve_package env file s of
        (pkgContext, pkg) \<Rightarrow>
          (let s1 = s\<lparr> pkgStore := (pkgStore s)(file \<mapsto> (pkgContext, pkg)) \<rparr>;
               plugins = collect_plugins env pkg file;
               oldPlugins = getPlugins s1 file
           in if plugins = oldPlugins then (Returned oldPlugins, s1)
              else
                (let s2 = s1\<lparr> pluginsStore := (pluginsStore s1)(file \<mapsto> plugins),
                             log_lines := log_lines s1 @ [''Plugins found: '' @ file] \<rparr>
                 in if resetApi opts \<or> (autoLoadApi opts \<and> pluginApiInstances s2 file = None)
                    then (case resetPluginApi env file (lightApi opts) s2 of
                            (Returned b, s3) \<Rightarrow>
                              (Returned (filter (\<lambda>p. \<not> plugin_hidden p) plugins), s3)
                          | (Raised e, s3) \<Rightarrow> (Raised e, s3)
                          | (Pending, s3) \<Rightarrow> (Pending, s3))
                    else (Returned (filter (\<lambda>p. \<not> plugin_hidden p) plugins), s2))))"

subsection \<open>The progress channel\<close>

text \<open>
  Modelled from the spec: \<open>progress.wrap\<close> of the \<open>progress\<close> connector, which is not among
  the sources. The spec says that each operation is a serialized task keyed by a progress
  id, and that a second call while one is in flight must queue or reject. The model keeps
  the ids in flight; \<open>progress_begin\<close> and \<open>progress_end\<close> are the two ends of a wrapped
  operation. \<open>progress_wrap\<close> is a wrapped operation run in one piece on a channel that
  rejects; \<open>channel_step\<close> below covers both ways of refusing.
\<close>

definition progress_begin :: "string \<Rightarrow> 'w server \<Rightarrow> 'w server option" where
  "progress_begin key s =
     (if key \<in> set (in_flight s) then None else Some (s\<lparr> in_flight := key # in_flight s \<rparr>))"

definition progress_end :: "string \<Rightarrow> 'w server \<Rightarrow> 'w server" where
  "progress_end key s = s\<lparr> in_flight := remove1 key (in_flight s) \<rparr>"

definition progress_wrap ::
  "string \<Rightarrow> ('w server \<Rightarrow> 'a completion \<times> 'w server) \<Rightarrow> 'w server
     \<Rightarrow> 'a completion \<times> 'w server" where
  "progress_wrap key operation s =
     (case progress_begin key s of
        None \<Rightarrow> (Raised (JError (''progress '' @ key @ '' is in flight'')), s)
      | Some s1 \<Rightarrow>
          (case operation s1 of
             (Pending, s2) \<Rightarrow> (Pending, s2)
           | (r, s2) \<Rightarrow> (r, progress_end key s2)))"

text \<open>
  The lifecycle operations and the progress id each one hands to \<open>progress.wrap\<close>
  (\<open>install\<close>, \<open>installLocal\<close>, \<open>uninstall\<close> and \<open>runInvoke\<close> pass \<open>PROGRESS_ID\<close>; \<open>update\<close>
  and \<open>updateAll\<close> pass string literals of their own).
\<close>

datatype lifecycle_op = Install | InstallLocal | Uninstall | Update | UpdateAll | Invoke

definition progress_id_of :: "lifecycle_op \<Rightarrow> string" where
  "progress_id_of op =
     (case op of
        Install \<Rightarrow> PROGRESS_ID
      | InstallLocal \<Rightarrow> PROGRESS_ID
      | Uninstall \<Rightarrow> PROGRESS_ID
      | Invoke \<Rightarrow> PROGRESS_ID
      | Update \<Rightarrow> ''plugin-update''
      | UpdateAll \<Rightarrow> ''plugins-update'')"

text \<open>
  What a lifecycle operation does before it reaches \<open>progress.wrap\<close>. Only \<open>installLocal\<close>
  does anything there: \<open>cwd.set(projects.getCurrent(context).path, context)\<close>, which throws
  when there is no current project.
\<close>

definition before_wrap :: "'w collaborators \<Rightarrow> lifecycle_op \<Rightarrow> 'w server \<Rightarrow> jsval + 'w server" where
  "before_wrap env op s =
     (case op of
        InstallLocal \<Rightarrow>
          (case getCurrent env of
             None \<Rightarrow> Inl (JError ''TypeError: cannot read path of null'')
           | Some p \<Rightarrow> Inr (s\<lparr> cwd := project_path p \<rparr>))
      | _ \<Rightarrow> Inr s)"

text \<open>
  Modelled from the spec: a run of the channel. Operations are called and, once admitted,
  finish, in any order. A call whose progress id is in flight is refused: the spec leaves
  open whether it is queued or rejected, so the way of refusing is a parameter. A queued
  operation is admitted when the operation holding its id finishes. The state keeps every
  called operation in one of five lists: in flight (newest first), waiting, rejected,
  finished, or failed before it reached the channel.
\<close>

datatype refusal = Queue | Reject

datatype channel_call = Start lifecycle_op | Finish lifecycle_op

record 'w channel =
  running :: "lifecycle_op list"
  waiting :: "lifecycle_op list"
  rejected :: "lifecycle_op list"
  finished :: "lifecycle_op list"
  failed :: "lifecycle_op list"
  srv :: "'w server"

definition idle_channel :: "'w server \<Rightarrow> 'w channel" where
  "idle_channel s =
     \<lparr> running = [], waiting = [], rejected = [], finished = [], failed = [], srv = s \<rparr>"

fun channel_step ::
  "refusal \<Rightarrow> 'w collaborators \<Rightarrow> channel_call \<Rightarrow> 'w channel \<Rightarrow> 'w channel" where
  "channel_step how env (Start op) ch =
     (case before_wrap env op (srv ch) of
        Inl e \<Rightarrow> ch\<lparr> failed := failed ch @ [op] \<rparr>
      | Inr s1 \<Rightarrow>
          (case progress_begin (progress_id_of op) s1 of
             Some s2 \<Rightarrow> ch\<lparr> running := op # running ch, srv := s2 \<rparr>
           | None \<Rightarrow>
               (case how of
                  Reject \<Rightarrow> ch\<lparr> rejected := rejected ch @ [op], srv := s1 \<rparr>
                | Queue \<Rightarrow> ch\<lparr> waiting := waiting ch @ [op], srv := s1 \<rparr>)))"
| "channel_step how env (Finish op) ch =
     (if op \<in> set (running ch)
      then
        (let s1 = progress_end (progress_id_of op) (srv ch);
             ch1 = ch\<lparr> running := remove1 op (running ch), finished := finished ch @ [op],
                       srv := s1 \<rparr>
         in case find (\<lambda>w. progress_id_of w = progress_id_of op) (waiting ch1) of
              None \<Rightarrow> ch1
            | Some w \<Rightarrow>
                (case progress_begin (progress_id_of w) s1 of
                   None \<Rightarrow> ch1
                 | Some s2 \<Rightarrow>
                     ch1\<lparr> running := w # running ch1, waiting := remove1 w (waiting ch1),
                          srv := s2 \<rparr>))
      else ch)"

definition channel_run ::
  "refusal \<Rightarrow> 'w collaborators \<Rightarrow> channel_call list \<Rightarrow> 'w channel \<Rightarrow> 'w channel" where
  "channel_run how env calls ch = foldl (\<lambda>ch c. channel_step how env c ch) ch calls"

text \<open>The operations a list of calls starts, in order.\<close>

fun started :: "channel_call list \<Rightarrow> lifecycle_op list" where
  "started [] = []"
| "started (Start op # calls) = op # started calls"
| "started (Finish op # calls) = started calls"

subsection \<open>\<open>update\<close> and \<open>updateLocalPackage\<close>\<close>

text \<open>\<open>id.split('/')\<close>.\<close>

fun split_char :: "char \<Rightarrow> string \<Rightarrow> string list" where
  "split_char c [] = [[]]"
| "split_char c (x # xs) =
     (if x = c then [] # split_char c xs
      else (case split_char c xs of
              [] \<Rightarrow> [[x]]
            | y # ys \<Rightarrow> (x # y) # ys))"

text \<open>
  \<open>file.match(filterRegEx)\<close> for a regular expression that is an alternation of literal
  words, unanchored: some word occurs in \<open>file\<close>. \<open>FsCopy\<close> records the words of the filter
  it was given; the copy keeps the files \<open>copy_keeps\<close> accepts.
\<close>

fun occurs_in :: "string \<Rightarrow> string \<Rightarrow> bool" where
  "occurs_in word [] = (word = [])"
| "occurs_in word (x # xs) = (prefix word (x # xs) \<or> occurs_in word xs)"

definition copy_keeps :: "string list \<Rightarrow> string \<Rightarrow> bool" where
  "copy_keeps words file = (\<not> list_ex (\<lambda>w. occurs_in w file) words)"

text \<open>\<open>full\<close> is \<open>None\<close> when the caller left it \<open>undefined\<close>: the default is \<open>true\<close>.\<close>

definition updateLocalPackage ::
  "'w collaborators \<Rightarrow> string \<Rightarrow> string \<Rightarrow> string \<Rightarrow> bool option \<Rightarrow> 'w server \<Rightarrow> 'w server" where
  "updateLocalPackage env i cwd0 localPath0 full s =
     (let from = path_resolve env [cwd0, localPath0];
          to = path_resolve env ([cwd0, ''node_modules''] @ split_char CHR ''/'' i)
      in if (case full of None \<Rightarrow> True | Some b \<Rightarrow> b)
         then s\<lparr> fs_ops := fs_ops s @ [FsRemove to, FsCopy from to [''.git'']] \<rparr>
         else s\<lparr> fs_ops := fs_ops s @ [FsCopy from to [''.git'', ''node_modules'']] \<rparr>)"

text \<open>The operation \<open>update\<close> hands to \<open>progress.wrap\<close>.\<close>

definition update_operation ::
  "'w collaborators \<Rightarrow> string \<Rightarrow> bool option \<Rightarrow> 'w server \<Rightarrow> plugin option completion \<times> 'w server" where
  "update_operation env i full s =
     (let s1 = s\<lparr> ui_calls := ui_calls s @ [SetProgress ''plugin-update'' [i]],
                  currentPluginId := Some i \<rparr>
      in case findOne i (cwd s1) s1 of
           (plugin, s2) \<Rightarrow>
             (let v = getVersion env plugin;
                  s3 = (case localPath v of
                          None \<Rightarrow> s2\<lparr> pm_ops := pm_ops s2 @ [UpdatePackage (cwd s2) i] \<rparr>
                        | Some lp \<Rightarrow>
                            (if lp = [] then s2\<lparr> pm_ops := pm_ops s2 @ [UpdatePackage (cwd s2) i] \<rparr>
                             else updateLocalPackage env i (cwd s2) lp full s2));
                  s4 = s3\<lparr> ui_calls := ui_calls s3
                            @ [LogsAdd ''info'' (''Plugin '' @ i @ '' updated from '' @ current v
                                                 @ '' to '' @ wanted v),
                               Notify ''Plugin updated''
                                      (''Plugin '' @ i @ '' was successfully updated'')] \<rparr>
              in case resetPluginApi env (cwd s4) False s4 of
                   (Returned b, s5) \<Rightarrow>
                     (case findOne i (cwd s5)
                             (s5\<lparr> ui_calls := ui_calls s5 @ [InvalidatePackage i],
                                  currentPluginId := None \<rparr>) of
                        (found, s6) \<Rightarrow> (Returned found, s6))
                 | (Raised e, s5) \<Rightarrow> (Raised e, s5)
                 | (Pending, s5) \<Rightarrow> (Pending, s5)))"

definition update ::
  "'w collaborators \<Rightarrow> string \<Rightarrow> bool option \<Rightarrow> 'w server \<Rightarrow> plugin option completion \<times> 'w server" where
  "update env i full s = progress_wrap ''plugin-update'' (update_operation env i full) s"

subsection \<open>\<open>callAction\<close>\<close>

record action_result =
  action_id :: string
  action_params :: jsval
  results :: "jsval list"
  errors :: "jsval list"

text \<open>
  The loop over the handler list: \<open>result\<close> and \<open>error\<close> start as \<open>null\<close>, the awaited call
  sets one of them, and both are pushed.
\<close>

fun run_action_handlers ::
  "'w action_fn list \<Rightarrow> jsval \<Rightarrow> jsval list \<Rightarrow> jsval list \<Rightarrow> 'w
     \<Rightarrow> (jsval list \<times> jsval list) \<times> 'w" where
  "run_action_handlers [] params rs es w = ((rs, es), w)"
| "run_action_handlers (cb # rest) params rs es w =
     (case cb params w of
        (Inr result, w1) \<Rightarrow> run_action_handlers rest params (rs @ [result]) (es @ [JNull]) w1
      | (Inl error, w1) \<Rightarrow> run_action_handlers rest params (rs @ [JNull]) (es @ [error]) w1)"

text \<open>\<open>file_arg\<close> is \<open>None\<close> when the caller gave no \<open>file\<close>: the default is \<open>cwd.get()\<close>.\<close>

definition callAction ::
  "string \<Rightarrow> jsval \<Rightarrow> string option \<Rightarrow> 'w server \<Rightarrow> action_result completion \<times> 'w server" where
  "callAction i params file_arg s =
     (let file = (case file_arg of None \<Rightarrow> cwd s | Some f \<Rightarrow> f);
          pluginApi = getApi s file;
          s1 = s\<lparr> published := published s @ [PluginActionCalled i params],
                  log_lines := log_lines s @ [''PluginAction called '' @ i] \<rparr>
      in case pluginApi of
           None \<Rightarrow> (Raised (JError ''TypeError: cannot read actions of undefined''), s1)
         | Some api \<Rightarrow>
             (case (case actions api i of
                      None \<Rightarrow> (([], []), world s1)
                    | Some handlers \<Rightarrow> run_action_handlers handlers params [] [] (world s1)) of
                ((rs, es), w) \<Rightarrow>
                  (Returned \<lparr> action_id = i, action_params = params, results = rs, errors = es \<rparr>,
                   s1\<lparr> world := w,
                       published := published s1 @ [PluginActionResolved i params rs es],
                       log_lines := log_lines s1 @ [''PluginAction resolved '' @ i] \<rparr>)))"

text \<open>
  The worlds the handlers of one dispatch see when they run one after the other in list
  order: the first sees the world of the call, each next one the world its predecessor
  left; the last entry is the world after the dispatch.
\<close>

fun worlds_in_order :: "'w action_fn list \<Rightarrow> jsval \<Rightarrow> 'w \<Rightarrow> 'w list" where
  "worlds_in_order [] params w = [w]"
| "worlds_in_order (cb # rest) params w = w # worlds_in_order rest params (snd (cb params w))"

text \<open>
  What each handler of a dispatch gives when the handlers run one after the other in list
  order, and the entries \<open>callAction\<close> pushes for it: the result or \<open>null\<close>, the
  error or \<open>null\<close>.
\<close>

definition result_of :: "jsval + jsval \<Rightarrow> jsval" where
  "result_of out = (case out of Inr v \<Rightarrow> v | Inl e \<Rightarrow> JNull)"

definition error_of :: "jsval + jsval \<Rightarrow> jsval" where
  "error_of out = (case out of Inr v \<Rightarrow> JNull | Inl e \<Rightarrow> e)"

fun outcomes_in_order :: "'w action_fn list \<Rightarrow> jsval \<Rightarrow> 'w \<Rightarrow> (jsval + jsval) list" where
  "outcomes_in_order [] params w = []"
| "outcomes_in_order (cb # rest) params w =
     fst (cb params w) # outcomes_in_order rest params (snd (cb params w))"

text \<open>
  The part of the server state that the runtime-instance functions leave alone: all but the
  instances, the log lines, the calls to the user-interface collaborators and the world.
\<close>

definition keeps_stores :: "'w server \<Rightarrow> 'w server \<Rightarrow> bool" where
  "keeps_stores s t =
     (cwd t = cwd s \<and> pluginsStore t = pluginsStore s \<and> pkgStore t = pkgStore s
      \<and> fs_ops t = fs_ops s \<and> pm_ops t = pm_ops s \<and> in_flight t = in_flight s
      \<and> published t = published s \<and> currentPluginId t = currentPluginId s)"

text \<open>
  What \<open>update\<close> adds to the file-system and package-manager calls: one package-manager
  update and no file operation, or no package-manager call and the resync from the local
  path (the removal first unless \<open>full\<close> is \<open>false\<close>).
\<close>

definition registry_update :: "string \<Rightarrow> 'w server \<Rightarrow> 'w server \<Rightarrow> bool" where
  "registry_update i s t =
     (fs_ops t = fs_ops s \<and> pm_ops t = pm_ops s @ [UpdatePackage (cwd s) i])"

definition local_update ::
  "'w collaborators \<Rightarrow> string \<Rightarrow> string \<Rightarrow> bool option \<Rightarrow> 'w server \<Rightarrow> 'w server \<Rightarrow> bool" where
  "local_update env i lp full s t =
     (let from = path_resolve env [cwd s, lp];
          to = path_resolve env ([cwd s, ''node_modules''] @ split_char CHR ''/'' i)
      in pm_ops t = pm_ops s
         \<and> fs_ops t = fs_ops s
              @ (if full = Some False then [FsCopy from to [''.git'', ''node_modules'']]
                 else [FsRemove to, FsCopy from to [''.git'']]))"

text \<open>
  The invariant of a run of the channel: the ids in flight are those of the operations in
  flight, and no two of these share an id.
\<close>

definition channel_inv :: "'w channel \<Rightarrow> bool" where
  "channel_inv ch =
     (in_flight (srv ch) = map progress_id_of (running ch)
      \<and> distinct (map progress_id_of (running ch)))"

text \<open>Every operation the channel has been handed, wherever it stands now.\<close>

definition accounted :: "'w channel \<Rightarrow> lifecycle_op list" where
  "accounted ch = running ch @ waiting ch @ rejected ch @ finished ch @ failed ch"

section \<open>Sample data\<close>

text \<open>Concrete commands, a concrete search engine and a concrete environment, used where a
  statement is instantiated.\<close>

definition sample_a :: "nat MetaCommand" where
  "sample_a = \<lparr> cmd_id = ''a'', cmd_type = Action, label = ''Alpha'', description = None,
                cmd_hidden = False, lastUsed = Some 1000, handler = Some (\<lambda>w. (None, Suc w)) \<rparr>"

definition sample_b :: "nat MetaCommand" where
  "sample_b = \<lparr> cmd_id = ''b'', cmd_type = Package, label = ''foobar'', description = None,
                cmd_hidden = False, lastUsed = Some 2000, handler = None \<rparr>"

definition sample_c :: "nat MetaCommand" where
  "sample_c = \<lparr> cmd_id = ''c'', cmd_type = Action, label = ''food'', description = None,
                cmd_hidden = False, lastUsed = None, handler = Some (\<lambda>w. (Some (JError ''boom''), w)) \<rparr>"

text \<open>The hidden command \<open>find\<close> that the module adds while it loads.\<close>

definition sample_find :: "nat MetaCommand" where
  "sample_find = \<lparr> cmd_id = ''find'', cmd_type = Action, label = ''Find'', description = None,
          cmd_hidden = True, lastUsed = None, handler = None \<rparr>"

text \<open>A hidden command of another type under the id of \<open>sample_b\<close>.\<close>

definition sample_repeat :: "nat MetaCommand" where
  "sample_repeat = \<lparr> cmd_id = ''b'', cmd_type = Script, label = ''deploy'', description = None,
                     cmd_hidden = True, lastUsed = None, handler = None \<rparr>"

definition sample_commands :: "nat MetaCommand list" where
  "sample_commands = builtin_commands @ [sample_a, sample_b, sample_c]"

definition sample_engine :: lunr_search where
  "sample_engine idx q = map fst (filter (\<lambda>d. prefix q (snd d)) idx)"


text \<open>A server state without runtime instance, an instance with two action handlers (the
  first throws, the second returns 5), and the state that holds it.\<close>

definition sample_server :: "nat server" where
  "sample_server =
     \<lparr> cwd = ''/ws'', pluginsStore = Map.empty, pkgStore = Map.empty,
       pluginApiInstances = Map.empty, currentPluginId = None, in_flight = [],
       log_lines = [], ui_calls = [], fs_ops = [], pm_ops = [], published = [], world = 0 \<rparr>"

definition sample_project :: project where
  "sample_project = \<lparr> project_id = ''p1'', project_path = ''/ws'' \<rparr>"

definition sample_h1 :: "nat action_fn" where
  "sample_h1 params w = (Inl (JError ''h1 failed''), Suc w)"

definition sample_h2 :: "nat action_fn" where
  "sample_h2 params w = (Inr (JNum 5), w + 10)"

definition sample_api :: "nat plugin_api" where
  "sample_api =
     \<lparr> api_project = sample_project, api_cwd = ''/ws'', api_pluginId = None,
       api_views = [''view-1''], ipcHandlers = [7],
       hooks = [''projectOpen'' \<mapsto> [], ''pluginReload'' \<mapsto> []],
       actions = [''build'' \<mapsto> [sample_h1, sample_h2]],
       clientAddons = [], widgetDefs = [] \<rparr>"

definition sample_server_with_api :: "nat server" where
  "sample_server_with_api = sample_server\<lparr> pluginApiInstances := [''/ws'' \<mapsto> sample_api] \<rparr>"

text \<open>
  A workspace whose manifest has one plugin dependency and a \<open>vuedesk\<close> entry with one
  bundled plugin, collaborators that find no project for any path, the three plugins
  discovery builds for it, and the server state after one discovery.
\<close>

definition sample_package :: package_json where
  "sample_package =
     \<lparr> devDependencies = Some [(''vue-cli-plugin-x'', ''^1.0.0'')], dependencies = None,
       resolveFrom = None, vuePlugins_ui = None,
       vuedesk = Some \<lparr> vuedesk_version = ''1.2.0'', vuedesk_plugins = [''babel''] \<rparr> \<rparr>"

definition sample_env :: "nat collaborators" where
  "sample_env =
     \<lparr> readPackage = (\<lambda>file. sample_package),
       path_resolve = (\<lambda>segments. foldr (\<lambda>x acc. if acc = [] then x else x @ ''/'' @ acc) segments []),
       isPlugin = (\<lambda>i. prefix ''vue-cli-plugin-'' i),
       isOfficialPlugin = (\<lambda>i. False),
       getPluginLink = (\<lambda>i. None),
       getPath = (\<lambda>i file. file @ ''/node_modules/'' @ i),
       existsSync = (\<lambda>p. True),
       loadModule = (\<lambda>file c. ModuleMissing),
       findByPath = (\<lambda>file. None),
       getType = (\<lambda>p. ''vue''),
       getLast = None,
       getCurrent = Some \<lparr> project_id = ''p2'', project_path = ''/current'' \<rparr>,
       getCurrentView = None,
       newPluginApi = (\<lambda>plugins file project light.
          \<lparr> api_project = project, api_cwd = file, api_pluginId = None, api_views = [],
            ipcHandlers = [], hooks = [''projectOpen'' \<mapsto> [], ''pluginReload'' \<mapsto> []],
            actions = Map.empty, clientAddons = [], widgetDefs = [] \<rparr>),
       getVersion = (\<lambda>plugin. \<lparr> current = ''1.0.0'', wanted = ''1.1.0'', localPath = None \<rparr>),
       dirname = ''/srv/connectors'' \<rparr>"

definition sample_bundle :: plugin where
  "sample_bundle =
     \<lparr> plugin_id = ''vuedesk-build-bundle'', versionRange = ''1.2.0'', official = True,
       installed = True, website = None, baseDir = ''/ws'', plugin_hidden = False \<rparr>"

definition sample_plugin_x :: plugin where
  "sample_plugin_x =
     \<lparr> plugin_id = ''vue-cli-plugin-x'', versionRange = ''^1.0.0'', official = False,
       installed = True, website = None, baseDir = ''/ws'', plugin_hidden = False \<rparr>"

definition sample_babel :: plugin where
  "sample_babel =
     \<lparr> plugin_id = ''@vue/cli-plugin-babel'', versionRange = ''1.2.0'', official = True,
       installed = True, website = None, baseDir = ''/ws'', plugin_hidden = True \<rparr>"

definition sample_listed :: "nat server" where
  "sample_listed =
     sample_server\<lparr>
       pkgStore := [''/ws'' \<mapsto> (''/ws'', sample_package)],
       pluginsStore := [''/ws'' \<mapsto> [sample_bundle, sample_plugin_x, sample_babel]],
       log_lines := [''Plugins found: /ws'', ''Plugin API reloading... /ws''],
       ui_calls := [ClientAddonsClear, SuggestionsClear, WidgetsReset] \<rparr>"

definition sample_env_local :: "nat collaborators" where
  "sample_env_local =
     sample_env\<lparr> getVersion :=
       (\<lambda>plugin. \<lparr> current = ''1.0.0'', wanted = ''1.0.0'', localPath = Some ''../x'' \<rparr>) \<rparr>"

text \<open>The same collaborators, with a project of type \<open>vue\<close> found for every path.\<close>

definition sample_env_project :: "nat collaborators" where
  "sample_env_project = sample_env\<lparr> findByPath := (\<lambda>file. Some sample_project) \<rparr>"

section \<open>Properties of the command registry\<close>

subsection \<open>The sort of the recent list\<close>

lemma set_sort_insert: "set (sort_insert cmp x xs) = insert x (set xs)"
  by (induction xs) auto

lemma set_array_sort: "set (array_sort cmp xs) = set xs"
  by (induction xs) (auto simp: set_sort_insert)

lemma length_sort_insert: "length (sort_insert cmp x xs) = Suc (length xs)"
  by (induction xs) auto

lemma length_array_sort: "length (array_sort cmp xs) = length xs"
  by (induction xs) (auto simp: length_sort_insert)

lemma ranks_before_iff:
  "ranks_before a b =
     (case lastUsed a of
        None \<Rightarrow> lastUsed b = None
      | Some ta \<Rightarrow> (case lastUsed b of None \<Rightarrow> True | Some tb \<Rightarrow> tb \<le> ta))"
  by (auto simp: ranks_before_def recent_compare_def split: option.splits)

lemma ranks_before_total: "\<not> ranks_before a b \<Longrightarrow> ranks_before b a"
  by (auto simp: ranks_before_iff split: option.splits)

lemma ranks_before_trans: "ranks_before a b \<Longrightarrow> ranks_before b c \<Longrightarrow> ranks_before a c"
  by (auto simp: ranks_before_iff split: option.splits)

lemma sorted_sort_insert:
  "sorted_wrt ranks_before xs \<Longrightarrow> sorted_wrt ranks_before (sort_insert recent_compare x xs)"
proof (induction xs)
  case Nil
  then show ?case by simp
next
  case (Cons y ys)
  show ?case
  proof (cases "recent_compare x y \<le> 0")
    case True
    then have xy: "ranks_before x y" by (simp add: ranks_before_def)
    have "\<forall>z\<in>set ys. ranks_before x z"
      using Cons.prems xy ranks_before_trans by auto
    with True xy Cons.prems show ?thesis by simp
  next
    case False
    then have "ranks_before y x"
      using ranks_before_total by (auto simp: ranks_before_def)
    with False Cons show ?thesis by (auto simp: set_sort_insert)
  qed
qed

lemma sorted_array_sort: "sorted_wrt ranks_before (array_sort recent_compare xs)"
  by (induction xs) (auto simp: sorted_sort_insert)

lemma filter_unstamped_sort_insert:
  "filter (\<lambda>c. lastUsed c = None) (sort_insert recent_compare x xs)
     = filter (\<lambda>c. lastUsed c = None) (x # xs)"
  by (induction xs) (auto simp: recent_compare_def split: option.splits)

lemma filter_unstamped_array_sort:
  "filter (\<lambda>c. lastUsed c = None) (array_sort recent_compare xs)
     = filter (\<lambda>c. lastUsed c = None) xs"
  by (induction xs) (auto simp: filter_unstamped_sort_insert)

lemma prefix_filter_take: "prefix (filter P (take n xs)) (filter P xs)"
proof -
  have "filter P xs = filter P (take n xs) @ filter P (drop n xs)"
    by (metis append_take_drop_id filter_append)
  then show ?thesis by (simp add: prefixI)
qed


lemma getRecentCommands_sorted:
  "sorted_wrt ranks_before (getRecentCommands ty cmds)"
  by (simp add: getRecentCommands_def sorted_array_sort)

lemma getRecentCommands_subset:
  "set (getRecentCommands ty cmds) \<subseteq> {c \<in> set cmds. recent_filter ty c}"
proof -
  have "set (getRecentCommands ty cmds) \<subseteq> set (array_sort recent_compare (filter (recent_filter ty) cmds))"
    by (simp add: getRecentCommands_def set_take_subset)
  then show ?thesis by (auto simp: set_array_sort)
qed

lemma getRecentCommands_stable:
  "prefix (filter (\<lambda>c. lastUsed c = None) (getRecentCommands ty cmds))
          (filter (\<lambda>c. lastUsed c = None) (filter (recent_filter ty) cmds))"
proof -
  have "prefix (filter (\<lambda>c. lastUsed c = None) (take 20 (array_sort recent_compare (filter (recent_filter ty) cmds))))
          (filter (\<lambda>c. lastUsed c = None) (array_sort recent_compare (filter (recent_filter ty) cmds)))"
    by (rule prefix_filter_take)
  then show ?thesis
    by (simp add: getRecentCommands_def filter_unstamped_array_sort)
qed

lemma recent_example:
  assumes "lastUsed a = Some T1" "lastUsed b = Some T2" "T1 < T2" "lastUsed c = None"
    and "recent_filter ty a" "recent_filter ty b" "recent_filter ty c"
    and "cmds \<in> {[a, b, c], [a, c, b], [b, a, c], [b, c, a], [c, a, b], [c, b, a]}"
  shows "getRecentCommands ty cmds = [b, a, c]"
  using assms by (auto simp: getRecentCommands_def recent_compare_def)

lemma mset_sort_insert: "mset (sort_insert cmp x xs) = add_mset x (mset xs)"
  by (induction xs) auto

lemma mset_array_sort: "mset (array_sort cmp xs) = mset xs"
  by (induction xs) (auto simp: mset_sort_insert)

lemma filter_key_sort_insert:
  "filter (\<lambda>c. lastUsed c = k) (sort_insert recent_compare x xs)
     = filter (\<lambda>c. lastUsed c = k) (x # xs)"
  by (induction xs) (auto simp: recent_compare_def split: option.splits)

lemma filter_key_array_sort:
  "filter (\<lambda>c. lastUsed c = k) (array_sort recent_compare xs)
     = filter (\<lambda>c. lastUsed c = k) xs"
  by (induction xs) (auto simp: filter_key_sort_insert)

lemma recent_filter_explicit:
  "recent_filter ty
     = (\<lambda>c. \<not> cmd_hidden c \<and> (case ty of None \<Rightarrow> cmd_type c \<noteq> Help | Some t \<Rightarrow> cmd_type c = t))"
  by (auto simp: recent_filter_def fun_eq_iff split: option.splits)

lemma ranks_before_explicit:
  "ranks_before
     = (\<lambda>a b. case lastUsed a of
                 None \<Rightarrow> lastUsed b = None
               | Some ta \<Rightarrow> (case lastUsed b of None \<Rightarrow> True | Some tb \<Rightarrow> tb \<le> ta))"
  by (simp add: fun_eq_iff ranks_before_iff)

text \<open>
  Claim C5. When the query is empty after a recognised type word has been removed,
  \<open>searchCommands\<close> returns the recent list. The eligible commands are those of the
  command list that are not hidden and, with no type word, not of type help (with a type
  word: of that type). The result is the first 20 entries of a ranking of exactly the
  eligible commands (each as often as it is eligible) in which a \<open>lastUsed\<close> time is never
  followed by a later one or preceded by an entry without one, and in which commands with
  the same \<open>lastUsed\<close>, or both without one, keep the order of the command list; so it has
  20 entries, or all eligible commands when there are fewer. For three eligible commands
  \<open>a\<close> (\<open>lastUsed = T1\<close>), \<open>b\<close> (\<open>lastUsed = T2 > T1\<close>) and \<open>c\<close> (no \<open>lastUsed\<close>), in
  any order in the command list, the result is \<open>[b, a, c]\<close>.
\<close>

theorem recent_commands_on_empty_query:
  "strip_type_word text = [] \<Longrightarrow>
   (let ty = getSeachType text;
        ok = (\<lambda>c. \<not> cmd_hidden c
                   \<and> (case ty of None \<Rightarrow> cmd_type c \<noteq> Help | Some t \<Rightarrow> cmd_type c = t));
        eligible = filter ok (commands r);
        result = getRecentCommands ty (commands r) in
      searchCommands engine r text = map Some result
    \<and> length result \<le> 20
    \<and> length result = min 20 (length eligible)
    \<and> (\<exists>ranked. result = take 20 ranked
          \<and> mset ranked = mset eligible
          \<and> sorted_wrt (\<lambda>a b. case lastUsed a of
                                  None \<Rightarrow> lastUsed b = None
                                | Some ta \<Rightarrow> (case lastUsed b of None \<Rightarrow> True
                                              | Some tb \<Rightarrow> tb \<le> ta)) ranked
          \<and> (\<forall>k. filter (\<lambda>c. lastUsed c = k) ranked = filter (\<lambda>c. lastUsed c = k) eligible))
    \<and> (\<forall>c\<in>set result. c \<in> set (commands r) \<and> \<not> cmd_hidden c)
    \<and> (ty = None \<longrightarrow> (\<forall>c\<in>set result. cmd_type c \<noteq> Help))
    \<and> (\<forall>i j ta tb. i < j \<and> j < length result \<and> lastUsed (result ! i) = Some ta
            \<and> lastUsed (result ! j) = Some tb \<longrightarrow> tb \<le> ta)
    \<and> (\<forall>i j. i < j \<and> j < length result \<and> lastUsed (result ! j) \<noteq> None
            \<longrightarrow> lastUsed (result ! i) \<noteq> None)
    \<and> prefix (filter (\<lambda>c. lastUsed c = None) result)
             (filter (\<lambda>c. lastUsed c = None) eligible)
    \<and> (\<forall>a b c T1 T2.
          lastUsed a = Some T1 \<and> lastUsed b = Some T2 \<and> T1 < T2 \<and> lastUsed c = None
          \<and> ok a \<and> ok b \<and> ok c
          \<and> commands r \<in> {[a, b, c], [a, c, b], [b, a, c], [b, c, a], [c, a, b], [c, b, a]}
          \<longrightarrow> result = [b, a, c]))"
proof -
  assume empty: "strip_type_word text = []"
  define ty where "ty = getSeachType text"
  define ok where "ok = (\<lambda>c::'a MetaCommand. \<not> cmd_hidden c
                   \<and> (case ty of None \<Rightarrow> cmd_type c \<noteq> Help | Some t \<Rightarrow> cmd_type c = t))"
  define eligible where "eligible = filter ok (commands r)"
  define result where "result = getRecentCommands ty (commands r)"
  define ranked where "ranked = array_sort recent_compare eligible"
  have rf: "recent_filter ty = ok"
    unfolding ok_def by (rule recent_filter_explicit)
  have res: "result = take 20 ranked"
    by (simp add: result_def ranked_def eligible_def getRecentCommands_def rf)
  have s1: "searchCommands engine r text = map Some result"
    using empty by (simp add: searchCommands_def ty_def result_def)
  have s2: "length result \<le> 20"
    by (simp add: res)
  have s2': "length result = min 20 (length eligible)"
    by (simp add: res ranked_def length_array_sort min.commute)
  have m: "mset ranked = mset eligible"
    by (simp add: ranked_def mset_array_sort)
  have srt0: "sorted_wrt ranks_before ranked"
    unfolding ranked_def by (rule sorted_array_sort)
  then have srt1: "sorted_wrt (\<lambda>a b. case lastUsed a of
                                  None \<Rightarrow> lastUsed b = None
                                | Some ta \<Rightarrow> (case lastUsed b of None \<Rightarrow> True
                                              | Some tb \<Rightarrow> tb \<le> ta)) ranked"
    by (simp add: ranks_before_explicit)
  have st: "\<forall>k. filter (\<lambda>c. lastUsed c = k) ranked = filter (\<lambda>c. lastUsed c = k) eligible"
    by (simp add: ranked_def filter_key_array_sort)
  have s2'': "\<exists>ranked. result = take 20 ranked
          \<and> mset ranked = mset eligible
          \<and> sorted_wrt (\<lambda>a b. case lastUsed a of
                                  None \<Rightarrow> lastUsed b = None
                                | Some ta \<Rightarrow> (case lastUsed b of None \<Rightarrow> True
                                              | Some tb \<Rightarrow> tb \<le> ta)) ranked
          \<and> (\<forall>k. filter (\<lambda>c. lastUsed c = k) ranked = filter (\<lambda>c. lastUsed c = k) eligible)"
    using res m srt1 st by (intro exI [of _ ranked] conjI)
  have sub: "set result \<subseteq> {c \<in> set (commands r). ok c}"
    using getRecentCommands_subset [of ty "commands r"] by (simp add: result_def rf)
  have s3: "\<forall>c\<in>set result. c \<in> set (commands r) \<and> \<not> cmd_hidden c"
    using sub by (auto simp: ok_def)
  have s4: "ty = None \<longrightarrow> (\<forall>c\<in>set result. cmd_type c \<noteq> Help)"
    using sub by (auto simp: ok_def)
  have srt: "sorted_wrt ranks_before result"
    unfolding result_def by (rule getRecentCommands_sorted)
  have pair: "ranks_before (result ! i) (result ! j)" if "i < j" "j < length result" for i j
    using srt that by (simp add: sorted_wrt_iff_nth_less)
  have s5: "\<forall>i j ta tb. i < j \<and> j < length result \<and> lastUsed (result ! i) = Some ta
            \<and> lastUsed (result ! j) = Some tb \<longrightarrow> tb \<le> ta"
    using pair by (fastforce simp: ranks_before_iff)
  have s6: "\<forall>i j. i < j \<and> j < length result \<and> lastUsed (result ! j) \<noteq> None
            \<longrightarrow> lastUsed (result ! i) \<noteq> None"
    using pair by (fastforce simp: ranks_before_iff split: option.splits)
  have s7: "prefix (filter (\<lambda>c. lastUsed c = None) result)
             (filter (\<lambda>c. lastUsed c = None) eligible)"
    using getRecentCommands_stable [of ty "commands r"]
    by (simp add: result_def eligible_def rf)
  have s8: "\<forall>a b c T1 T2.
          lastUsed a = Some T1 \<and> lastUsed b = Some T2 \<and> T1 < T2 \<and> lastUsed c = None
          \<and> ok a \<and> ok b \<and> ok c
          \<and> commands r \<in> {[a, b, c], [a, c, b], [b, a, c], [b, c, a], [c, a, b], [c, b, a]}
          \<longrightarrow> result = [b, a, c]"
    unfolding result_def rf [symmetric] using recent_example by blast
  from s1 s2 s2' s2'' s3 s4 s5 s6 s7 s8 show ?thesis
    unfolding Let_def eligible_def result_def ok_def ty_def
    by (intro conjI)
qed

subsection \<open>The registry after a sequence of additions\<close>

lemma registry_of_snoc: "registry_of (cmds @ [c]) = addCommand c (registry_of cmds)"
  by (simp add: registry_of_def)

lemma registry_of_Nil: "registry_of [] = empty_registry"
  by (simp add: registry_of_def)

lemma commands_registry_of: "commands (registry_of cmds) = cmds"
  by (induction cmds rule: rev_induct)
     (simp_all add: registry_of_Nil registry_of_snoc empty_registry_def addCommand_def Let_def)

lemma searchIndexes_registry_of:
  "searchIndexes (registry_of cmds) t
     = map (\<lambda>c. (cmd_id c, label c)) (filter (\<lambda>c. \<not> cmd_hidden c \<and> cmd_type c = t) cmds)"
  by (induction cmds arbitrary: t rule: rev_induct)
     (auto simp: registry_of_Nil registry_of_snoc empty_registry_def addCommand_def Let_def
        createIndex_def addDoc_def)

lemma globalSearchIndex_registry_of:
  "globalSearchIndex (registry_of cmds)
     = map (\<lambda>c. (cmd_id c, label c)) (filter (\<lambda>c. \<not> cmd_hidden c) cmds)"
  by (induction cmds rule: rev_induct)
     (simp_all add: registry_of_Nil registry_of_snoc empty_registry_def addCommand_def Let_def
        createIndex_def addDoc_def)

lemma commandsMap_addCommand:
  "commandsMap (addCommand c r) = (commandsMap r)(cmd_id c \<mapsto> c)"
  by (simp add: addCommand_def Let_def)

lemma commandsMap_registry_of:
  "distinct (map cmd_id cmds) \<Longrightarrow> c \<in> set cmds
     \<Longrightarrow> commandsMap (registry_of cmds) (cmd_id c) = Some c"
proof (induction cmds rule: rev_induct)
  case Nil
  then show ?case by simp
next
  case (snoc x xs)
  show ?case
  proof (cases "c = x")
    case True
    then show ?thesis by (simp add: registry_of_snoc commandsMap_addCommand)
  next
    case False
    with snoc.prems have cxs: "c \<in> set xs" by auto
    from snoc.prems have "cmd_id x \<notin> cmd_id ` set xs" by simp
    with cxs have "cmd_id c \<noteq> cmd_id x" by (metis imageI)
    with cxs snoc show ?thesis by (simp add: registry_of_snoc commandsMap_addCommand)
  qed
qed

lemma getSeachType_typeWord:
  "(word, t) \<in> set typeWords \<Longrightarrow> getSeachType (word # q) = Some t"
  by (auto simp: getSeachType_def typeWords_def)

lemma getSeachType_other:
  "text \<noteq> [] \<Longrightarrow> hd text \<notin> fst ` set typeWords \<Longrightarrow> getSeachType text = None"
  by (cases "text") (auto simp: getSeachType_def typeWords_def)

lemma searchCommands_scoped:
  "(word, t) \<in> set typeWords \<Longrightarrow> q \<noteq> []
     \<Longrightarrow> searchCommands engine r (word # q) = map (commandsMap r) (engine (searchIndexes r t) q)"
  by (simp add: searchCommands_def strip_type_word_def getSeachType_typeWord)

lemma searchCommands_global:
  "text \<noteq> [] \<Longrightarrow> hd text \<notin> fst ` set typeWords
     \<Longrightarrow> searchCommands engine r text = map (commandsMap r) (engine (globalSearchIndex r) text)"
  by (simp add: searchCommands_def strip_type_word_def getSeachType_other)

lemma scoped_hit:
  assumes sound: "\<forall>idx q ref. ref \<in> set (engine idx q) \<longrightarrow> (\<exists>l. (ref, l) \<in> set idx \<and> matches q l)"
    and uniq: "distinct (map cmd_id cmds)"
    and ref: "ref \<in> set (engine (searchIndexes (registry_of cmds) t) q)"
  shows "\<exists>c. commandsMap (registry_of cmds) ref = Some c \<and> c \<in> set cmds \<and> cmd_type c = t
            \<and> \<not> cmd_hidden c \<and> matches q (label c)"
proof -
  from sound ref obtain l where l: "(ref, l) \<in> set (searchIndexes (registry_of cmds) t)" "matches q l"
    by blast
  then obtain c where c: "c \<in> set cmds" "\<not> cmd_hidden c" "cmd_type c = t" "ref = cmd_id c" "l = label c"
    by (auto simp: searchIndexes_registry_of)
  with uniq have "commandsMap (registry_of cmds) ref = Some c"
    by (simp add: commandsMap_registry_of)
  with c l show ?thesis by blast
qed

lemma commandsMap_registry_of_find:
  "commandsMap (registry_of cmds) i = find (\<lambda>c. cmd_id c = i) (rev cmds)"
  by (induction cmds rule: rev_induct)
     (simp_all add: registry_of_Nil registry_of_snoc empty_registry_def commandsMap_addCommand)

lemma find_Some_mem: "find P xs = Some x \<Longrightarrow> x \<in> set xs"
  by (induction xs) (auto split: if_splits)

lemma find_Some_holds: "find P xs = Some x \<Longrightarrow> P x"
  by (induction xs) (auto split: if_splits)

lemma find_rev_Some:
  "c \<in> set cmds \<Longrightarrow> \<exists>d. find (\<lambda>e. cmd_id e = cmd_id c) (rev cmds) = Some d \<and> cmd_id d = cmd_id c
      \<and> d \<in> set cmds"
proof -
  assume "c \<in> set cmds"
  then have "find (\<lambda>e. cmd_id e = cmd_id c) (rev cmds) \<noteq> None"
    by (auto simp: find_None_iff)
  then obtain d where d: "find (\<lambda>e. cmd_id e = cmd_id c) (rev cmds) = Some d"
    by auto
  then have "cmd_id d = cmd_id c" "d \<in> set cmds"
    using find_Some_holds [OF d] find_Some_mem [OF d] by simp_all
  with d show ?thesis by blast
qed


lemma scoped_hit_general:
  assumes sound: "\<forall>idx q ref. ref \<in> set (engine idx q) \<longrightarrow> (\<exists>l. (ref, l) \<in> set idx \<and> matches q l)"
    and ref: "ref \<in> set (engine (searchIndexes (registry_of cmds) t) q)"
  shows "\<exists>c d. commandsMap (registry_of cmds) ref = Some d \<and> c \<in> set cmds \<and> cmd_type c = t
            \<and> \<not> cmd_hidden c \<and> matches q (label c) \<and> ref = cmd_id c
            \<and> find (\<lambda>e. cmd_id e = cmd_id c) (rev cmds) = Some d"
proof -
  from sound ref obtain l where l: "(ref, l) \<in> set (searchIndexes (registry_of cmds) t)" "matches q l"
    by blast
  then obtain c where c: "c \<in> set cmds" "\<not> cmd_hidden c" "cmd_type c = t" "ref = cmd_id c" "l = label c"
    by (auto simp: searchIndexes_registry_of)
  from find_rev_Some [OF c(1)] obtain d where d: "find (\<lambda>e. cmd_id e = cmd_id c) (rev cmds) = Some d"
    by blast
  then have "commandsMap (registry_of cmds) ref = Some d"
    by (simp add: commandsMap_registry_of_find c(4))
  with c l d show ?thesis by blast
qed

text \<open>
  Claim C6, as amended. Let the search engine return only refs of documents of the index
  it is given whose label matches the query. A query that starts with \<open>?\<close>, \<open>>\<close>, \<open><\<close>,
  \<open>&\<close>, \<open>~\<close> or \<open>$\<close> and has more text is looked up, without that first character, in
  the index of type help, action, project, package, config or script respectively; that
  index holds the visible commands of the type. Every hit is mapped through
  \<open>commandsMap\<close> to the command added last under the id of a visible command of the type
  whose label matches. When the added commands have distinct ids that is the matching
  command itself, so \<open>&foo\<close> then returns only visible commands of type package whose
  label matches \<open>foo\<close>. A non-empty query whose first character is none of the six is
  looked up unchanged in the global index, which holds all visible commands.
\<close>

theorem prefix_dispatch:
  fixes engine :: lunr_search and matches :: "string \<Rightarrow> string \<Rightarrow> bool"
  assumes sound: "\<forall>idx q ref. ref \<in> set (engine idx q) \<longrightarrow> (\<exists>l. (ref, l) \<in> set idx \<and> matches q l)"
  shows
    "(\<forall>word t q.
        (word, t) \<in> {(CHR ''?'', Help), (CHR ''>'', Action), (CHR ''<'', Project),
                      (CHR ''&'', Package), (CHR ''~'', Config), (CHR ''$'', Script)}
        \<and> q \<noteq> [] \<longrightarrow>
        getSeachType (word # q) = Some t
        \<and> strip_type_word (word # q) = q
        \<and> searchCommands engine (registry_of cmds) (word # q)
            = map (commandsMap (registry_of cmds)) (engine (searchIndexes (registry_of cmds) t) q)
        \<and> (\<forall>x\<in>set (searchCommands engine (registry_of cmds) (word # q)).
              \<exists>c d. x = Some d \<and> c \<in> set cmds \<and> cmd_type c = t \<and> \<not> cmd_hidden c
                  \<and> matches q (label c)
                  \<and> find (\<lambda>e. cmd_id e = cmd_id c) (rev cmds) = Some d)
        \<and> (distinct (map cmd_id cmds) \<longrightarrow>
             (\<forall>x\<in>set (searchCommands engine (registry_of cmds) (word # q)).
                \<exists>c. x = Some c \<and> c \<in> set cmds \<and> cmd_type c = t \<and> \<not> cmd_hidden c
                    \<and> matches q (label c))))
     \<and> (distinct (map cmd_id cmds) \<longrightarrow>
          (\<forall>x\<in>set (searchCommands engine (registry_of cmds) ''&foo'').
              \<exists>c. x = Some c \<and> c \<in> set cmds \<and> cmd_type c = Package \<and> \<not> cmd_hidden c
                  \<and> matches ''foo'' (label c)))
     \<and> (\<forall>text. text \<noteq> []
            \<and> hd text \<notin> {CHR ''?'', CHR ''>'', CHR ''<'', CHR ''&'', CHR ''~'', CHR ''$''} \<longrightarrow>
          getSeachType text = None
          \<and> searchCommands engine (registry_of cmds) text
            = map (commandsMap (registry_of cmds)) (engine (globalSearchIndex (registry_of cmds)) text))
     \<and> (\<forall>t. searchIndexes (registry_of cmds) t
            = map (\<lambda>c. (cmd_id c, label c)) (filter (\<lambda>c. \<not> cmd_hidden c \<and> cmd_type c = t) cmds))
     \<and> globalSearchIndex (registry_of cmds)
            = map (\<lambda>c. (cmd_id c, label c)) (filter (\<lambda>c. \<not> cmd_hidden c) cmds)
     \<and> (\<forall>i. commandsMap (registry_of cmds) i = find (\<lambda>c. cmd_id c = i) (rev cmds))"
proof -
  let ?R = "registry_of cmds"
  have tw: "set typeWords = {(CHR ''?'', Help), (CHR ''>'', Action), (CHR ''<'', Project),
                      (CHR ''&'', Package), (CHR ''~'', Config), (CHR ''$'', Script)}"
    by (simp add: typeWords_def)
  have keys: "fst ` set typeWords = {CHR ''?'', CHR ''>'', CHR ''<'', CHR ''&'', CHR ''~'', CHR ''$''}"
    by (simp add: typeWords_def)
  have scoped: "getSeachType (word # q) = Some t
        \<and> strip_type_word (word # q) = q
        \<and> searchCommands engine ?R (word # q)
            = map (commandsMap ?R) (engine (searchIndexes ?R t) q)
        \<and> (\<forall>x\<in>set (searchCommands engine ?R (word # q)).
              \<exists>c d. x = Some d \<and> c \<in> set cmds \<and> cmd_type c = t \<and> \<not> cmd_hidden c
                  \<and> matches q (label c)
                  \<and> find (\<lambda>e. cmd_id e = cmd_id c) (rev cmds) = Some d)
        \<and> (distinct (map cmd_id cmds) \<longrightarrow>
             (\<forall>x\<in>set (searchCommands engine ?R (word # q)).
                \<exists>c. x = Some c \<and> c \<in> set cmds \<and> cmd_type c = t \<and> \<not> cmd_hidden c
                    \<and> matches q (label c)))"
    if "(word, t) \<in> set typeWords" "q \<noteq> []" for word t q
  proof -
    have gt: "getSeachType (word # q) = Some t"
      using that(1) by (rule getSeachType_typeWord)
    have st: "strip_type_word (word # q) = q"
      by (simp add: strip_type_word_def gt)
    have eq: "searchCommands engine ?R (word # q)
          = map (commandsMap ?R) (engine (searchIndexes ?R t) q)"
      using that by (rule searchCommands_scoped)
    have gen: "\<forall>x\<in>set (searchCommands engine ?R (word # q)).
              \<exists>c d. x = Some d \<and> c \<in> set cmds \<and> cmd_type c = t \<and> \<not> cmd_hidden c
                  \<and> matches q (label c)
                  \<and> find (\<lambda>e. cmd_id e = cmd_id c) (rev cmds) = Some d"
      unfolding eq using scoped_hit_general [OF sound] by fastforce
    have uni: "distinct (map cmd_id cmds) \<longrightarrow>
             (\<forall>x\<in>set (searchCommands engine ?R (word # q)).
                \<exists>c. x = Some c \<and> c \<in> set cmds \<and> cmd_type c = t \<and> \<not> cmd_hidden c
                    \<and> matches q (label c))"
    proof
      assume uniq: "distinct (map cmd_id cmds)"
      show "\<forall>x\<in>set (searchCommands engine ?R (word # q)).
                \<exists>c. x = Some c \<and> c \<in> set cmds \<and> cmd_type c = t \<and> \<not> cmd_hidden c
                    \<and> matches q (label c)"
        unfolding eq using scoped_hit [OF sound uniq] by auto
    qed
    from gt st eq gen uni show ?thesis by (intro conjI)
  qed
  have amp: "(CHR ''&'', Package) \<in> set typeWords"
    by (simp add: typeWords_def)
  have foo: "distinct (map cmd_id cmds) \<longrightarrow>
          (\<forall>x\<in>set (searchCommands engine ?R ''&foo'').
              \<exists>c. x = Some c \<and> c \<in> set cmds \<and> cmd_type c = Package \<and> \<not> cmd_hidden c
                  \<and> matches ''foo'' (label c))"
    using scoped [OF amp, of "''foo''"] by simp
  have glob: "\<forall>text. text \<noteq> []
            \<and> hd text \<notin> {CHR ''?'', CHR ''>'', CHR ''<'', CHR ''&'', CHR ''~'', CHR ''$''} \<longrightarrow>
          getSeachType text = None
          \<and> searchCommands engine ?R text
            = map (commandsMap ?R) (engine (globalSearchIndex ?R) text)"
    unfolding keys [symmetric] by (simp add: searchCommands_global getSeachType_other)
  have idx: "\<forall>t. searchIndexes ?R t
            = map (\<lambda>c. (cmd_id c, label c)) (filter (\<lambda>c. \<not> cmd_hidden c \<and> cmd_type c = t) cmds)"
    by (simp add: searchIndexes_registry_of)
  have gidx: "globalSearchIndex ?R
            = map (\<lambda>c. (cmd_id c, label c)) (filter (\<lambda>c. \<not> cmd_hidden c) cmds)"
    by (rule globalSearchIndex_registry_of)
  have cm: "\<forall>i. commandsMap ?R i = find (\<lambda>c. cmd_id c = i) (rev cmds)"
    by (simp add: commandsMap_registry_of_find)
  have sc: "\<forall>word t q.
        (word, t) \<in> {(CHR ''?'', Help), (CHR ''>'', Action), (CHR ''<'', Project),
                      (CHR ''&'', Package), (CHR ''~'', Config), (CHR ''$'', Script)}
        \<and> q \<noteq> [] \<longrightarrow>
        getSeachType (word # q) = Some t
        \<and> strip_type_word (word # q) = q
        \<and> searchCommands engine ?R (word # q)
            = map (commandsMap ?R) (engine (searchIndexes ?R t) q)
        \<and> (\<forall>x\<in>set (searchCommands engine ?R (word # q)).
              \<exists>c d. x = Some d \<and> c \<in> set cmds \<and> cmd_type c = t \<and> \<not> cmd_hidden c
                  \<and> matches q (label c)
                  \<and> find (\<lambda>e. cmd_id e = cmd_id c) (rev cmds) = Some d)
        \<and> (distinct (map cmd_id cmds) \<longrightarrow>
             (\<forall>x\<in>set (searchCommands engine ?R (word # q)).
                \<exists>c. x = Some c \<and> c \<in> set cmds \<and> cmd_type c = t \<and> \<not> cmd_hidden c
                    \<and> matches q (label c)))"
    unfolding tw [symmetric] using scoped by blast
  from sc foo glob idx gidx cm show ?thesis by (intro conjI)
qed

text \<open>
  Claim C6 as stated fails: \<open>addCommand\<close> accepts an id a second time, and \<open>&foo\<close> then
  returns the command added last under it, here a hidden command of type script.
\<close>

theorem repeated_id_returns_other_type:
  "searchCommands sample_engine (registry_of [sample_b, sample_repeat]) ''&foo''
     = [Some sample_repeat]
   \<and> cmd_type sample_repeat = Script \<and> cmd_hidden sample_repeat"
proof -
  have amp: "getSeachType ''&foo'' = Some Package"
    by (simp add: getSeachType_def typeWords_def)
  have "searchCommands sample_engine (registry_of [sample_b, sample_repeat]) ''&foo''
     = [Some sample_repeat]"
    by (simp add: searchCommands_def strip_type_word_def amp searchIndexes_registry_of
          commandsMap_registry_of_find sample_engine_def sample_b_def sample_repeat_def)
  then show ?thesis by (simp add: sample_repeat_def)
qed

subsection \<open>Instances on the sample commands\<close>

lemmas sample_defs = sample_a_def sample_b_def sample_c_def sample_find_def sample_commands_def
  builtin_commands_def typeWords_def type_name_def

lemma sort_insert_replicate:
  "lastUsed c = None \<Longrightarrow> sort_insert recent_compare c (replicate n c) = c # replicate n c"
  by (cases n) (simp_all add: recent_compare_def)

lemma array_sort_replicate_then_stamped:
  "lastUsed c = None \<Longrightarrow> lastUsed a = Some t
     \<Longrightarrow> array_sort recent_compare (replicate n c @ [a]) = a # replicate n c"
proof (induction n)
  case 0
  then show ?case by simp
next
  case (Suc n)
  then have "array_sort recent_compare (replicate (Suc n) c @ [a])
               = sort_insert recent_compare c (a # replicate n c)" by simp
  also have "\<dots> = a # sort_insert recent_compare c (replicate n c)"
    using Suc.prems by (simp add: recent_compare_def)
  also have "\<dots> = a # replicate (Suc n) c"
    using Suc.prems by (simp add: sort_insert_replicate)
  finally show ?case .
qed

theorem recent_commands_on_empty_query_witness:
  "strip_type_word '''' = []
   \<and> searchCommands sample_engine (registry_of sample_commands) ''''
       = [Some sample_b, Some sample_a, Some sample_c]
   \<and> strip_type_word ''>'' = []
   \<and> searchCommands sample_engine (registry_of sample_commands) ''>''
       = [Some sample_a, Some sample_c]
   \<and> searchCommands sample_engine (registry_of (replicate 21 sample_c @ [sample_a])) ''''
       = map Some (sample_a # replicate 19 sample_c)"
proof -
  let ?r = "registry_of sample_commands"
  let ?big = "registry_of (replicate 21 sample_c @ [sample_a])"
  have h: "strip_type_word '''' = []"
    by (simp add: strip_type_word_def getSeachType_def)
  have ty: "getSeachType '''' = None"
    by (simp add: getSeachType_def)
  have h2: "strip_type_word ''>'' = []"
    by (simp add: strip_type_word_def getSeachType_def typeWords_def)
  have ty2: "getSeachType ''>'' = Some Action"
    by (simp add: getSeachType_def typeWords_def)
  note t = recent_commands_on_empty_query [OF h, of ?r sample_engine, unfolded Let_def ty]
  note t2 = recent_commands_on_empty_query [OF h2, of ?r sample_engine, unfolded Let_def ty2]
  note t3 = recent_commands_on_empty_query [OF h, of ?big sample_engine, unfolded Let_def ty]
  have eq: "searchCommands sample_engine ?r '''' = map Some (getRecentCommands None (commands ?r))"
    using t by (rule conjunct1)
  have eq2: "searchCommands sample_engine ?r ''>''
      = map Some (getRecentCommands (Some Action) (commands ?r))"
    using t2 by (rule conjunct1)
  have eq3: "searchCommands sample_engine ?big ''''
      = map Some (getRecentCommands None (commands ?big))"
    using t3 by (rule conjunct1)
  have g1: "getRecentCommands None (commands ?r) = [sample_b, sample_a, sample_c]"
    by (simp add: commands_registry_of getRecentCommands_def recent_filter_def recent_compare_def sample_defs)
  have g2: "getRecentCommands (Some Action) (commands ?r) = [sample_a, sample_c]"
    by (simp add: commands_registry_of getRecentCommands_def recent_filter_def recent_compare_def sample_defs)
  have ok: "recent_filter None sample_c" "recent_filter None sample_a"
    by (simp_all add: recent_filter_def sample_a_def sample_c_def)
  have lu: "lastUsed sample_c = None" "lastUsed sample_a = Some 1000"
    by (simp_all add: sample_a_def sample_c_def)
  have g3: "getRecentCommands None (commands ?big) = sample_a # replicate 19 sample_c"
    by (simp add: commands_registry_of getRecentCommands_def ok
          array_sort_replicate_then_stamped [OF lu])
  show ?thesis using eq eq2 eq3 g1 g2 g3 h h2 by simp
qed

theorem prefix_dispatch_witness:
  "searchCommands sample_engine (registry_of sample_commands) ''&foo'' = [Some sample_b]
   \<and> searchCommands sample_engine (registry_of sample_commands) ''>Al'' = [Some sample_a]
   \<and> searchCommands sample_engine (registry_of sample_commands) ''foo'' = [Some sample_b, Some sample_c]"
proof -
  let ?R = "registry_of sample_commands"
  have sound: "\<forall>idx q ref. ref \<in> set (sample_engine idx q) \<longrightarrow> (\<exists>l. (ref, l) \<in> set idx \<and> prefix q l)"
    by (auto simp: sample_engine_def)
  note t = prefix_dispatch [OF sound, of sample_commands]
  note sc = t [THEN conjunct1, rule_format]
  note gl = t [THEN conjunct2, THEN conjunct2, THEN conjunct1, rule_format]
  have scoped: "searchCommands sample_engine ?R ''&foo''
      = map (commandsMap ?R) (sample_engine (searchIndexes ?R Package) ''foo'')"
    using sc [of "CHR ''&''" Package "''foo''"] by simp
  have scoped2: "searchCommands sample_engine ?R ''>Al''
      = map (commandsMap ?R) (sample_engine (searchIndexes ?R Action) ''Al'')"
    using sc [of "CHR ''>''" Action "''Al''"] by simp
  have glob: "searchCommands sample_engine ?R ''foo''
      = map (commandsMap ?R) (sample_engine (globalSearchIndex ?R) ''foo'')"
    using gl [of "''foo''"] by simp
  have uniq: "distinct (map cmd_id sample_commands)"
    by (simp add: sample_defs)
  have m: "commandsMap ?R ''b'' = Some sample_b" "commandsMap ?R ''c'' = Some sample_c"
      "commandsMap ?R ''a'' = Some sample_a"
    using commandsMap_registry_of [OF uniq, of sample_b] commandsMap_registry_of [OF uniq, of sample_c]
      commandsMap_registry_of [OF uniq, of sample_a]
    by (simp_all add: sample_defs)
  have s1: "searchCommands sample_engine ?R ''&foo'' = [Some sample_b]"
    unfolding scoped using m
    by (simp add: searchIndexes_registry_of sample_engine_def sample_defs)
  have s3: "searchCommands sample_engine ?R ''>Al'' = [Some sample_a]"
    unfolding scoped2 using m
    by (simp add: searchIndexes_registry_of sample_engine_def sample_defs)
  have s2: "searchCommands sample_engine ?R ''foo'' = [Some sample_b, Some sample_c]"
    unfolding glob using m
    by (simp add: globalSearchIndex_registry_of sample_engine_def sample_defs)
  from s1 s2 s3 show ?thesis by simp
qed

subsection \<open>\<open>runCommand\<close>\<close>




text \<open>A handler that throws: the value propagates to the caller and nothing is published.\<close>

lemma runCommand_handler_throws:
  "find (\<lambda>c. cmd_id c = i) (commands r) = Some c \<Longrightarrow> handler c = Some h
     \<Longrightarrow> h (cmd_world env) = (Some e, w1)
     \<Longrightarrow> runCommand i clientId r env = (Inl e, env\<lparr> cmd_world := w1 \<rparr>)"
  by (simp add: runCommand_def)


section \<open>Properties of the plugin connector\<close>

subsection \<open>\<open>callAction\<close>\<close>

lemma length_worlds_in_order: "length (worlds_in_order hs p w) = Suc (length hs)"
  by (induction hs arbitrary: w) auto

lemma run_action_handlers_eq:
  "run_action_handlers hs p rs es w
     = ((rs @ map result_of (outcomes_in_order hs p w),
         es @ map error_of (outcomes_in_order hs p w)),
        last (worlds_in_order hs p w))"
proof (induction hs arbitrary: rs es w)
  case Nil
  then show ?case by simp
next
  case (Cons h hs)
  obtain out w1 where h: "h p w = (out, w1)" by (cases "h p w")
  have ne: "worlds_in_order hs p w1 \<noteq> []"
    by (cases hs) auto
  show ?case
    using h ne Cons.IH by (cases out) (simp_all add: result_of_def error_of_def)
qed

lemma length_outcomes_in_order: "length (outcomes_in_order hs p w) = length hs"
  by (induction hs arbitrary: w) auto

lemma nth_outcomes_in_order:
  "k < length hs \<Longrightarrow> outcomes_in_order hs p w ! k = fst ((hs ! k) p (worlds_in_order hs p w ! k))"
proof (induction hs arbitrary: w k)
  case Nil
  then show ?case by simp
next
  case (Cons h hs)
  then show ?case by (cases k) auto
qed

lemma hd_worlds_in_order: "worlds_in_order hs p w ! 0 = w"
  by (cases hs) auto

lemma nth_worlds_in_order_Suc:
  "k < length hs \<Longrightarrow> worlds_in_order hs p w ! Suc k = snd ((hs ! k) p (worlds_in_order hs p w ! k))"
proof (induction hs arbitrary: w k)
  case Nil
  then show ?case by simp
next
  case (Cons h hs)
  then show ?case by (cases k) (auto simp: hd_worlds_in_order)
qed

lemma callAction_with_handlers:
  assumes "getApi s (case file_arg of None \<Rightarrow> cwd s | Some f \<Rightarrow> f) = Some api"
    and "actions api i = Some handlers"
  shows "callAction i params file_arg s
     = (Returned \<lparr> action_id = i, action_params = params,
                   results = map result_of (outcomes_in_order handlers params (world s)),
                   errors = map error_of (outcomes_in_order handlers params (world s)) \<rparr>,
        s\<lparr> world := last (worlds_in_order handlers params (world s)),
           published := published s
             @ [PluginActionCalled i params,
                PluginActionResolved i params
                  (map result_of (outcomes_in_order handlers params (world s)))
                  (map error_of (outcomes_in_order handlers params (world s)))],
           log_lines := log_lines s @ [''PluginAction called '' @ i, ''PluginAction resolved '' @ i] \<rparr>)"
  using assms by (simp add: callAction_def run_action_handlers_eq)

text \<open>
  Claim C4. When the workspace has a runtime instance with a handler list for the action
  id, \<open>callAction\<close> returns; \<open>results\<close> and \<open>errors\<close> have one entry per handler. The
  handler at position \<open>k\<close> runs on the world its predecessors left, whether they returned
  or threw: if it returns \<open>v\<close> the entries at \<open>k\<close> are \<open>v\<close> and \<open>null\<close>, if it throws \<open>e\<close>
  they are \<open>null\<close> and \<open>e\<close>; so at no position are both entries non-null. The called and
  the resolved event are published. For two handlers, the first throwing \<open>e\<close> and the second
  returning 5, the results are \<open>[null, 5]\<close> and the errors \<open>[e, null]\<close>, and the second
  handler has run.
\<close>

theorem callAction_dispatch:
  assumes api: "getApi s (case file_arg of None \<Rightarrow> cwd s | Some f \<Rightarrow> f) = Some api"
    and hs: "actions api i = Some handlers"
  shows "\<exists>rs es s1.
      callAction i params file_arg s
        = (Returned \<lparr> action_id = i, action_params = params, results = rs, errors = es \<rparr>, s1)
    \<and> length rs = length handlers \<and> length es = length handlers
    \<and> (\<forall>k. k < length handlers \<longrightarrow>
          (case (handlers ! k) params (worlds_in_order handlers params (world s) ! k) of
             (Inr v, w1) \<Rightarrow> rs ! k = v \<and> es ! k = JNull
                 \<and> worlds_in_order handlers params (world s) ! Suc k = w1
           | (Inl e, w1) \<Rightarrow> rs ! k = JNull \<and> es ! k = e
                 \<and> worlds_in_order handlers params (world s) ! Suc k = w1))
    \<and> (\<forall>k. k < length handlers \<longrightarrow> (rs ! k \<noteq> JNull \<longrightarrow> es ! k = JNull)
                                   \<and> (es ! k \<noteq> JNull \<longrightarrow> rs ! k = JNull))
    \<and> world s1 = worlds_in_order handlers params (world s) ! length handlers
    \<and> published s1 = published s @ [PluginActionCalled i params, PluginActionResolved i params rs es]
    \<and> (\<forall>h1 h2 e w1 w2. handlers = [h1, h2] \<and> h1 params (world s) = (Inl e, w1)
           \<and> h2 params w1 = (Inr (JNum 5), w2)
           \<longrightarrow> rs = [JNull, JNum 5] \<and> es = [e, JNull] \<and> world s1 = w2)"
proof -
  let ?outs = "outcomes_in_order handlers params (world s)"
  let ?ws = "worlds_in_order handlers params (world s)"
  let ?rs = "map result_of ?outs" and ?es = "map error_of ?outs"
  let ?s1 = "s\<lparr> world := last ?ws,
           published := published s
             @ [PluginActionCalled i params, PluginActionResolved i params ?rs ?es],
           log_lines := log_lines s @ [''PluginAction called '' @ i, ''PluginAction resolved '' @ i] \<rparr>"
  have eq: "callAction i params file_arg s
        = (Returned \<lparr> action_id = i, action_params = params, results = ?rs, errors = ?es \<rparr>, ?s1)"
    using api hs by (rule callAction_with_handlers)
  have l1: "length ?rs = length handlers" and l2: "length ?es = length handlers"
    by (simp_all add: length_outcomes_in_order)
  have pos: "case (handlers ! k) params (?ws ! k) of
             (Inr v, w1) \<Rightarrow> ?rs ! k = v \<and> ?es ! k = JNull \<and> ?ws ! Suc k = w1
           | (Inl e, w1) \<Rightarrow> ?rs ! k = JNull \<and> ?es ! k = e \<and> ?ws ! Suc k = w1"
    if "k < length handlers" for k
  proof -
    obtain out w1 where o: "(handlers ! k) params (?ws ! k) = (out, w1)"
      by (cases "(handlers ! k) params (?ws ! k)")
    have "?outs ! k = out" "?ws ! Suc k = w1"
      using that o by (simp_all add: nth_outcomes_in_order nth_worlds_in_order_Suc)
    then show ?thesis
      using that o by (cases out) (simp_all add: length_outcomes_in_order result_of_def error_of_def)
  qed
  have null: "(?rs ! k \<noteq> JNull \<longrightarrow> ?es ! k = JNull) \<and> (?es ! k \<noteq> JNull \<longrightarrow> ?rs ! k = JNull)"
    if "k < length handlers" for k
    using that
    by (cases "?outs ! k") (simp_all add: length_outcomes_in_order result_of_def error_of_def)
  have w: "world ?s1 = ?ws ! length handlers"
    by (simp add: last_conv_nth length_worlds_in_order [of handlers params "world s"]
          flip: length_0_conv) 
  have pub: "published ?s1 = published s @ [PluginActionCalled i params, PluginActionResolved i params ?rs ?es]"
    by simp
  have ex: "\<forall>h1 h2 e w1 w2. handlers = [h1, h2] \<and> h1 params (world s) = (Inl e, w1)
           \<and> h2 params w1 = (Inr (JNum 5), w2)
           \<longrightarrow> ?rs = [JNull, JNum 5] \<and> ?es = [e, JNull] \<and> world ?s1 = w2"
    by (auto simp: result_of_def error_of_def)
  from eq l1 l2 pos null w pub ex show ?thesis by blast
qed


theorem callAction_dispatch_witness:
  "getApi sample_server_with_api (case None of None \<Rightarrow> cwd sample_server_with_api | Some f \<Rightarrow> f)
     = Some sample_api
   \<and> actions sample_api ''build'' = Some [sample_h1, sample_h2]
   \<and> fst (callAction ''build'' (JStr ''x'') None sample_server_with_api)
       = Returned \<lparr> action_id = ''build'', action_params = JStr ''x'',
                    results = [JNull, JNum 5], errors = [JError ''h1 failed'', JNull] \<rparr>
   \<and> world (snd (callAction ''build'' (JStr ''x'') None sample_server_with_api)) = 11"
proof -
  let ?s = sample_server_with_api
  have api: "getApi ?s (case None of None \<Rightarrow> cwd ?s | Some f \<Rightarrow> f) = Some sample_api"
    by (simp add: getApi_def sample_server_with_api_def sample_server_def)
  have hs: "actions sample_api ''build'' = Some [sample_h1, sample_h2]"
    by (simp add: sample_api_def)
  have w0: "world ?s = 0"
    by (simp add: sample_server_with_api_def sample_server_def)
  from callAction_dispatch [OF api hs, of "JStr ''x''"]
  have "fst (callAction ''build'' (JStr ''x'') None ?s)
       = Returned \<lparr> action_id = ''build'', action_params = JStr ''x'',
                    results = [JNull, JNum 5], errors = [JError ''h1 failed'', JNull] \<rparr>
   \<and> world (snd (callAction ''build'' (JStr ''x'') None ?s)) = 11"
  proof (elim exE conjE)
    fix rs es s1
    assume eq: "callAction ''build'' (JStr ''x'') None ?s
        = (Returned \<lparr> action_id = ''build'', action_params = JStr ''x'', results = rs, errors = es \<rparr>, s1)"
      and ex: "\<forall>h1 h2 e w1 w2. [sample_h1, sample_h2] = [h1, h2] \<and> h1 (JStr ''x'') (world ?s) = (Inl e, w1)
           \<and> h2 (JStr ''x'') w1 = (Inr (JNum 5), w2)
           \<longrightarrow> rs = [JNull, JNum 5] \<and> es = [e, JNull] \<and> world s1 = w2"
    have h1: "sample_h1 (JStr ''x'') (world ?s) = (Inl (JError ''h1 failed''), 1)"
      by (simp add: w0 sample_h1_def)
    have h2: "sample_h2 (JStr ''x'') 1 = (Inr (JNum 5), 11)"
      by (simp add: sample_h2_def)
    have "rs = [JNull, JNum 5] \<and> es = [JError ''h1 failed'', JNull] \<and> world s1 = 11"
      using ex [rule_format, of sample_h1 sample_h2 "JError ''h1 failed''" 1 11] h1 h2
      by blast
    then show ?thesis
      by (simp add: eq)
  qed
  with api hs show ?thesis by blast
qed

text \<open>
  Claim C10. When no runtime instance is registered for the workspace, \<open>callAction\<close>
  throws after it has published the called event: exactly that event is added, no resolved
  event, and no handler has run. \<open>callHook\<close> for the same workspace returns and changes
  nothing.
\<close>

theorem callAction_without_instance:
  assumes "getApi s (case file_arg of None \<Rightarrow> cwd s | Some f \<Rightarrow> f) = None"
  shows "(\<exists>e. fst (callAction i params file_arg s) = Raised e)
    \<and> published (snd (callAction i params file_arg s)) = published s @ [PluginActionCalled i params]
    \<and> world (snd (callAction i params file_arg s)) = world s
    \<and> callHook hook_id args (case file_arg of None \<Rightarrow> cwd s | Some f \<Rightarrow> f) s = (None, s)"
  using assms by (simp add: callAction_def callHook_def)

theorem callAction_without_instance_witness:
  "getApi sample_server (case Some ''/other'' of None \<Rightarrow> cwd sample_server | Some f \<Rightarrow> f) = None
   \<and> fst (callAction ''build'' JNull (Some ''/other'') sample_server)
        = Raised (JError ''TypeError: cannot read actions of undefined'')
   \<and> published (snd (callAction ''build'' JNull (Some ''/other'') sample_server))
        = [PluginActionCalled ''build'' JNull]
   \<and> callHook ''projectOpen'' [] ''/other'' sample_server = (None, sample_server)"
proof -
  have h: "getApi sample_server (case Some ''/other'' of None \<Rightarrow> cwd sample_server | Some f \<Rightarrow> f) = None"
    by (simp add: getApi_def sample_server_def)
  have r: "fst (callAction ''build'' JNull (Some ''/other'') sample_server)
        = Raised (JError ''TypeError: cannot read actions of undefined'')"
    using h by (simp add: callAction_def)
  from callAction_without_instance [OF h, of "''build''" JNull "''projectOpen''" "[]"] h r
  show ?thesis by (simp add: sample_server_def)
qed

subsection \<open>What the runtime-instance functions leave alone\<close>

lemma keeps_stores_refl: "keeps_stores s s"
  by (simp add: keeps_stores_def)

lemma keeps_stores_trans: "keeps_stores s t \<Longrightarrow> keeps_stores t u \<Longrightarrow> keeps_stores s u"
  by (simp add: keeps_stores_def)

lemma keeps_stores_runPluginApi_snd:
  "keeps_stores s (snd (snd (runPluginApi env i file api c s)))"
  by (simp add: runPluginApi_def Let_def keeps_stores_def
           split: module_load.split prod.split option.split)

lemma keeps_stores_runPluginApi:
  "runPluginApi env i file api c s = (thrown, api1, s1) \<Longrightarrow> keeps_stores s s1"
  using keeps_stores_runPluginApi_snd [of s env i "file" api c] by simp

lemma keeps_stores_runPluginApi_each:
  "runPluginApi_each env targets api s = (thrown, api1, s1) \<Longrightarrow> keeps_stores s s1"
proof (induction targets arbitrary: api s)
  case Nil
  then show ?case by (simp add: keeps_stores_refl)
next
  case (Cons t targets)
  obtain i fl where t: "t = (i, fl)" by (cases t)
  obtain th a2 s2 where r: "runPluginApi env i fl api (api_cwd api) s = (th, a2, s2)"
    by (cases "runPluginApi env i fl api (api_cwd api) s")
  have k: "keeps_stores s s2" using r by (rule keeps_stores_runPluginApi)
  show ?case
  proof (cases th)
    case None
    with Cons.prems t r have "runPluginApi_each env targets a2 s2 = (thrown, api1, s1)" by simp
    then have "keeps_stores s2 s1" by (rule Cons.IH)
    with k show ?thesis by (rule keeps_stores_trans)
  next
    case (Some e)
    with Cons.prems t r have "s1 = s2" by simp
    with k show ?thesis by simp
  qed
qed

lemma keeps_stores_callHook_snd:
  "keeps_stores s (snd (callHook i args file s))"
  by (simp add: callHook_def keeps_stores_def split: option.split prod.split)

lemma keeps_stores_callHook:
  "callHook i args file s = (thrown, s1) \<Longrightarrow> keeps_stores s s1"
  using keeps_stores_callHook_snd [of s i args "file"] by simp

lemma keeps_stores_store_api: "keeps_stores s (store_api file api s)"
  by (simp add: store_api_def keeps_stores_def)

lemma keeps_stores_ui: "keeps_stores s (s\<lparr> ui_calls := u \<rparr>)"
  by (simp add: keeps_stores_def)

lemma keeps_stores_reset_cleanup_snd:
  "keeps_stores s (snd (reset_cleanup file l s))"
  by (simp add: reset_cleanup_def Let_def keeps_stores_def split: option.split)

lemma keeps_stores_reset_cleanup:
  "reset_cleanup file l s = (projectId, s1) \<Longrightarrow> keeps_stores s s1"
  using keeps_stores_reset_cleanup_snd [of s "file" l] by simp

lemma keeps_stores_reset_hooks:
  "reset_hooks env file l projectId project s = (r, s1) \<Longrightarrow> keeps_stores s s1"
proof -
  assume a: "reset_hooks env file l projectId project s = (r, s1)"
  obtain t1 u1 where h1: "callHook ''projectOpen'' [Some project, getLast env] file s = (t1, u1)"
    by (cases "callHook ''projectOpen'' [Some project, getLast env] file s")
  obtain t2 u2 where h2: "callHook ''pluginReload'' [Some project] file s = (t2, u2)"
    by (cases "callHook ''pluginReload'' [Some project] file s")
  have k1: "keeps_stores s u1" using h1 by (rule keeps_stores_callHook)
  have k2: "keeps_stores s u2" using h2 by (rule keeps_stores_callHook)
  have k1w: "keeps_stores s (u1\<lparr> ui_calls := x \<rparr>)" for x
    using k1 by (simp add: keeps_stores_def)
  have k2w: "keeps_stores s (u2\<lparr> ui_calls := x \<rparr>)" for x
    using k2 by (simp add: keeps_stores_def)
  have "keeps_stores s (snd (reset_hooks env file l projectId project s))"
    by (simp add: reset_hooks_def Let_def h1 h2 k1 k2 k1w k2w keeps_stores_refl
          split: option.split)
  with a show ?thesis by simp
qed

lemma keeps_stores_reset_rebuild:
  assumes a: "reset_rebuild env file l projectId project plugins s = (r, s9)"
  shows "keeps_stores s s9"
proof -
  let ?api0 = "newPluginApi env plugins file project l"
  let ?s0 = "store_api file ?api0 s"
  have k0: "keeps_stores s ?s0" by (rule keeps_stores_store_api)
  obtain t1 a1 s1 where r1: "runPluginApi env ''@guijs/builtin-plugin'' ''@guijs/builtin-plugin/ui''
      ?api0 (dirname env) ?s0 = (t1, a1, s1)"
    by (rule prod_cases3)
  have k1: "keeps_stores s s1"
    using k0 keeps_stores_runPluginApi [OF r1] by (rule keeps_stores_trans)
  show ?thesis
  proof (cases t1)
    case (Some e)
    with a r1 have "s9 = store_api file a1 s1" by (simp add: reset_rebuild_def Let_def)
    with k1 keeps_stores_store_api [of s1 "file" a1] show ?thesis
      by (auto intro: keeps_stores_trans)
  next
    case None
    obtain t2 a2 s2 where r2: "runPluginApi_each env
        (map (\<lambda>p. (plugin_id p, plugin_id p @ ''/ui'')) plugins) a1 s1 = (t2, a2, s2)"
      by (rule prod_cases3)
    have k2: "keeps_stores s s2"
      using k1 keeps_stores_runPluginApi_each [OF r2] by (rule keeps_stores_trans)
    show ?thesis
    proof (cases t2)
      case (Some e)
      with a r1 r2 None have "s9 = store_api file a2 s2" by (simp add: reset_rebuild_def Let_def)
      with k2 keeps_stores_store_api [of s2 "file" a2] show ?thesis
        by (auto intro: keeps_stores_trans)
    next
      case t2: None
      show ?thesis
      proof (cases "pkgStore s2 file")
        case pn: None
        with a r1 r2 None t2 have "s9 = store_api file a2 s2" by (simp add: reset_rebuild_def Let_def)
        with k2 keeps_stores_store_api [of s2 "file" a2] show ?thesis
          by (auto intro: keeps_stores_trans)
      next
        case (Some pc)
        obtain pkgContext pkg where pc: "pc = (pkgContext, pkg)" by (cases pc)
        obtain t3 a3 s3 where r3: "runPluginApi_each env
                (case vuePlugins_ui pkg of
                   None \<Rightarrow> []
                 | Some files \<Rightarrow> map (\<lambda>f. (pkgContext, pkgContext @ ''/ui'')) files)
                a2 s2 = (t3, a3, s3)"
          by (rule prod_cases3)
        have k3: "keeps_stores s s3"
          using k2 keeps_stores_runPluginApi_each [OF r3] by (rule keeps_stores_trans)
        show ?thesis
        proof (cases t3)
          case e3: (Some e)
          with a r1 r2 r3 None t2 Some pc have "s9 = store_api file a3 s3"
            by (simp add: reset_rebuild_def Let_def)
          with k3 keeps_stores_store_api [of s3 "file" a3] show ?thesis
            by (auto intro: keeps_stores_trans)
        next
          case t3: None
          let ?s4 = "store_api file a3 s3"
          let ?s5 = "?s4\<lparr> ui_calls := ui_calls ?s4
                            @ map ClientAddonsAdd (clientAddons a3)
                            @ map (\<lambda>v. ViewsAdd v (project_id project)) (api_views a3)
                            @ map (\<lambda>d. WidgetsRegisterDefinition d (project_id project))
                                  (widgetDefs a3) \<rparr>"
          have k5: "keeps_stores s ?s5"
            using k3 by (simp add: keeps_stores_def store_api_def)
          from a r1 r2 r3 None t2 Some pc t3
          have "reset_hooks env file l projectId project ?s5 = (r, s9)"
            by (simp add: reset_rebuild_def Let_def)
          then have "keeps_stores ?s5 s9" by (rule keeps_stores_reset_hooks)
          with k5 show ?thesis by (rule keeps_stores_trans)
        qed
      qed
    qed
  qed
qed

lemma keeps_stores_resetPluginApi:
  assumes a: "resetPluginApi env file l s = (r, s9)"
  shows "keeps_stores s s9"
proof -
  let ?s0 = "s\<lparr> log_lines := log_lines s @ [''Plugin API reloading... '' @ file] \<rparr>"
  obtain projectId s2 where c: "reset_cleanup file l ?s0 = (projectId, s2)"
    by (cases "reset_cleanup file l ?s0")
  have k2: "keeps_stores s s2"
    using keeps_stores_reset_cleanup [OF c] by (simp add: keeps_stores_def)
  show ?thesis
  proof (cases "findByPath env file")
    case None
    with a c have "s9 = s2" by (simp add: resetPluginApi_def)
    with k2 show ?thesis by simp
  next
    case (Some project)
    show ?thesis
    proof (cases "getType env project = ''vue''")
      case False
      with a c Some have "s9 = s2" by (simp add: resetPluginApi_def)
      with k2 show ?thesis by simp
    next
      case True
      with a c Some have "reset_rebuild env file l projectId project (getPlugins s2 file) s2 = (r, s9)"
        by (simp add: resetPluginApi_def Let_def)
      then have "keeps_stores s2 s9" by (rule keeps_stores_reset_rebuild)
      with k2 show ?thesis by (rule keeps_stores_trans)
    qed
  qed
qed

subsection \<open>\<open>resetPluginApi\<close> resolving with \<open>false\<close>\<close>

lemma resetPluginApi_false:
  assumes "findByPath env file = None
           \<or> (\<exists>p. findByPath env file = Some p \<and> getType env p \<noteq> ''vue'')"
  shows "resetPluginApi env file l s
     = (Returned False,
        snd (reset_cleanup file l (s\<lparr> log_lines := log_lines s @ [''Plugin API reloading... '' @ file] \<rparr>)))"
  using assms by (auto simp: resetPluginApi_def Let_def split: prod.split)

lemma reset_cleanup_instances:
  "pluginApiInstances (snd (reset_cleanup file l s)) = pluginApiInstances s"
  by (simp add: reset_cleanup_def Let_def split: option.split)

lemma reset_cleanup_ui_calls:
  "pluginApiInstances s file = Some a \<Longrightarrow>
   prefix (ui_calls s @ map ViewsRemove (api_views a) @ map IpcOff (ipcHandlers a))
          (ui_calls (snd (reset_cleanup file l s)))"
  by (simp add: reset_cleanup_def Let_def prefix_def)

text \<open>
  Claim C1, as amended. When no project is found for the path, or the project found is not
  of type \<open>vue\<close>, \<open>resetPluginApi\<close> resolves with \<open>false\<close> and leaves
  \<open>pluginApiInstances\<close> as it was: no instance is created; a workspace that had no
  instance has none afterwards; a workspace that had one keeps that instance under its
  key, after the \<open>views.remove\<close> and \<open>ipc.off\<close> calls for its views and IPC handlers.
\<close>

theorem reset_false_leaves_instances:
  assumes "findByPath env file = None
           \<or> (\<exists>p. findByPath env file = Some p \<and> getType env p \<noteq> ''vue'')"
  shows "fst (resetPluginApi env file l s) = Returned False
     \<and> pluginApiInstances (snd (resetPluginApi env file l s)) = pluginApiInstances s
     \<and> (pluginApiInstances s file = None \<longrightarrow>
          pluginApiInstances (snd (resetPluginApi env file l s)) file = None)
     \<and> (\<forall>a. pluginApiInstances s file = Some a \<longrightarrow>
          pluginApiInstances (snd (resetPluginApi env file l s)) file = Some a
          \<and> prefix (ui_calls s @ map ViewsRemove (api_views a) @ map IpcOff (ipcHandlers a))
                    (ui_calls (snd (resetPluginApi env file l s))))"
proof -
  let ?s0 = "s\<lparr> log_lines := log_lines s @ [''Plugin API reloading... '' @ file] \<rparr>"
  have eq: "resetPluginApi env file l s = (Returned False, snd (reset_cleanup file l ?s0))"
    using assms by (rule resetPluginApi_false)
  have inst: "pluginApiInstances (snd (reset_cleanup file l ?s0)) = pluginApiInstances s"
    by (simp add: reset_cleanup_instances)
  have ui: "prefix (ui_calls s @ map ViewsRemove (api_views a) @ map IpcOff (ipcHandlers a))
                   (ui_calls (snd (reset_cleanup file l ?s0)))"
    if "pluginApiInstances s file = Some a" for a
    using reset_cleanup_ui_calls [of ?s0 "file" a l] that by simp
  show ?thesis
    unfolding eq using inst ui by simp
qed

text \<open>
  Claim C1 as stated fails: with an instance registered for \<open>/ws\<close> and no project for
  that path, the reset resolves with \<open>false\<close> and the instance is still registered.
\<close>

theorem reset_false_keeps_stale_instance:
  "fst (resetPluginApi sample_env ''/ws'' False sample_server_with_api) = Returned False
   \<and> pluginApiInstances (snd (resetPluginApi sample_env ''/ws'' False sample_server_with_api)) ''/ws''
       = Some sample_api"
proof -
  have fb: "findByPath sample_env ''/ws'' = None"
    by (simp add: sample_env_def)
  have eq: "resetPluginApi sample_env ''/ws'' False sample_server_with_api
     = (Returned False,
        snd (reset_cleanup ''/ws'' False
               (sample_server_with_api\<lparr> log_lines := log_lines sample_server_with_api
                   @ [''Plugin API reloading... '' @ ''/ws''] \<rparr>)))"
    using fb by (intro resetPluginApi_false) simp
  show ?thesis
    unfolding eq by (simp add: reset_cleanup_instances sample_server_with_api_def)
qed

theorem reset_false_leaves_instances_witness:
  "findByPath sample_env ''/ws'' = None
   \<and> fst (resetPluginApi sample_env ''/ws'' True sample_server) = Returned False
   \<and> pluginApiInstances (snd (resetPluginApi sample_env ''/ws'' True sample_server)) ''/ws'' = None"
proof -
  have fb: "findByPath sample_env ''/ws'' = None"
    by (simp add: sample_env_def)
  have none: "pluginApiInstances sample_server ''/ws'' = None"
    by (simp add: sample_server_def)
  from reset_false_leaves_instances [of sample_env "''/ws''" True sample_server] fb none
  show ?thesis by simp
qed

text \<open>
  For contrast, the path that resolves with \<open>true\<close>: on the sample workspace after
  discovery, with a project found, the reset registers the instance it builds.
\<close>

lemma runPluginApi_missing:
  "loadModule env file c = ModuleMissing \<Longrightarrow>
   runPluginApi env i file api c s
     = (None, api,
        s\<lparr> ui_calls := ui_calls s
              @ [LocalesLoadFolder (if existsSync env i then i else getPath env i c)] \<rparr>)"
  by (simp add: runPluginApi_def)

lemma runPluginApi_each_missing:
  "\<forall>f c. loadModule env f c = ModuleMissing \<Longrightarrow>
   runPluginApi_each env targets api s
     = (None, api,
        s\<lparr> ui_calls := ui_calls s
              @ map (\<lambda>t. LocalesLoadFolder
                            (if existsSync env (fst t) then fst t
                             else getPath env (fst t) (api_cwd api))) targets \<rparr>)"
proof (induction targets arbitrary: s)
  case Nil
  then show ?case by simp
next
  case (Cons t targets)
  obtain i fl where t: "t = (i, fl)" by (cases t)
  from Cons.prems have m: "loadModule env fl (api_cwd api) = ModuleMissing" by simp
  show ?case
    using Cons.IH [OF Cons.prems] by (simp add: t runPluginApi_missing [OF m])
qed

lemma reset_true_registers_instance:
  "fst (resetPluginApi sample_env_project ''/ws'' False sample_listed) = Returned True
   \<and> pluginApiInstances (snd (resetPluginApi sample_env_project ''/ws'' False sample_listed)) ''/ws''
       = Some (newPluginApi sample_env_project [sample_bundle, sample_plugin_x, sample_babel]
                 ''/ws'' sample_project False)"
proof -
  let ?api = "newPluginApi sample_env_project [sample_bundle, sample_plugin_x, sample_babel]
                 ''/ws'' sample_project False"
  let ?s0 = "sample_listed\<lparr> log_lines := log_lines sample_listed @ [''Plugin API reloading... /ws''] \<rparr>"
  have e: "findByPath sample_env_project ''/ws'' = Some sample_project"
      "getType sample_env_project sample_project = ''vue''"
      "getLast sample_env_project = None"
    by (simp_all add: sample_env_project_def sample_env_def)
  have miss: "\<forall>f c. loadModule sample_env_project f c = ModuleMissing"
    by (simp add: sample_env_project_def sample_env_def)
  have hk: "hooks ?api ''projectOpen'' = Some []"
    by (simp add: sample_env_project_def sample_env_def)
  have reg: "clientAddons ?api = []" "api_views ?api = []" "widgetDefs ?api = []"
    by (simp_all add: sample_env_project_def sample_env_def)
  obtain s2 where c: "reset_cleanup ''/ws'' False ?s0 = (None, s2)"
    and s2: "pluginsStore s2 = pluginsStore sample_listed" "pkgStore s2 = pkgStore sample_listed"
    by (simp add: reset_cleanup_def Let_def sample_listed_def sample_server_def)
  have g: "getPlugins s2 ''/ws'' = [sample_bundle, sample_plugin_x, sample_babel]"
    by (simp add: getPlugins_def s2 sample_listed_def)
  have p: "pkgStore s2 ''/ws'' = Some (''/ws'', sample_package)"
    by (simp add: s2 sample_listed_def)
  have ui: "vuePlugins_ui sample_package = None"
    by (simp add: sample_package_def)
  have rb: "fst (reset_rebuild sample_env_project ''/ws'' False None sample_project
                  [sample_bundle, sample_plugin_x, sample_babel] s2) = Returned True
      \<and> pluginApiInstances (snd (reset_rebuild sample_env_project ''/ws'' False None sample_project
                  [sample_bundle, sample_plugin_x, sample_babel] s2)) ''/ws'' = Some ?api"
    by (simp add: reset_rebuild_def Let_def runPluginApi_missing [OF miss [rule_format]]
          runPluginApi_each_missing [OF miss] store_api_def p ui reg reset_hooks_def
          callHook_def getApi_def hk e)
  show ?thesis
    by (simp add: resetPluginApi_def c e g Let_def rb)
qed

subsection \<open>\<open>list\<close> called twice\<close>

lemma sample_collect:
  "collect_plugins sample_env sample_package ''/ws'' = [sample_bundle, sample_plugin_x, sample_babel]"
  by (simp add: collect_plugins_def sample_package_def sample_env_def findPlugins_def
        put_service_first_def CLI_SERVICE_def VUEDESK_BUILD_BUNDLE_def getLink_def
        sample_bundle_def sample_plugin_x_def sample_babel_def)

lemma sample_first_call:
  "list_plugins sample_env ''/ws'' default_list_options sample_server
     = (Returned [sample_bundle, sample_plugin_x], sample_listed)"
proof -
  have rp: "resolve_package sample_env ''/ws'' sample_server = (''/ws'', sample_package)"
    by (simp add: resolve_package_def sample_env_def sample_package_def sample_server_def)
  have fb: "findByPath sample_env ''/ws'' = None"
    by (simp add: sample_env_def)
  have hid: "\<not> plugin_hidden sample_bundle" "\<not> plugin_hidden sample_plugin_x"
      "plugin_hidden sample_babel"
    by (simp_all add: sample_bundle_def sample_plugin_x_def sample_babel_def)
  show ?thesis
    unfolding list_plugins_def rp
    by (simp add: Let_def sample_collect hid getPlugins_def default_list_options_def
          resetPluginApi_def reset_cleanup_def fb sample_listed_def sample_server_def)
qed

text \<open>
  Claim C2 at a failing input. On the sample workspace after one discovery, the computed
  plugin array equals the stored one, and \<open>list\<close> returns the stored array with its hidden
  entry \<open>@vue/cli-plugin-babel\<close>; the other return path filters hidden entries out.
\<close>

theorem list_equal_path_returns_hidden:
  "fst (list_plugins sample_env ''/ws'' default_list_options sample_listed)
     = Returned [sample_bundle, sample_plugin_x, sample_babel]
   \<and> plugin_hidden sample_babel"
proof -
  have rp: "resolve_package sample_env ''/ws'' sample_listed = (''/ws'', sample_package)"
    by (simp add: resolve_package_def sample_env_def sample_package_def sample_listed_def sample_server_def)
  have hid: "plugin_hidden sample_babel"
    by (simp add: sample_babel_def)
  have "fst (list_plugins sample_env ''/ws'' default_list_options sample_listed)
     = Returned [sample_bundle, sample_plugin_x, sample_babel]"
    unfolding list_plugins_def rp
    by (simp add: Let_def sample_collect getPlugins_def sample_listed_def)
  with hid show ?thesis by simp
qed

lemma sample_second_call:
  "list_plugins sample_env ''/ws'' default_list_options sample_listed
     = (Returned [sample_bundle, sample_plugin_x, sample_babel], sample_listed)"
proof -
  have rp: "resolve_package sample_env ''/ws'' sample_listed = (''/ws'', sample_package)"
    by (simp add: resolve_package_def sample_env_def sample_package_def sample_listed_def sample_server_def)
  show ?thesis
    unfolding list_plugins_def rp
    by (simp add: Let_def sample_collect getPlugins_def sample_listed_def)
qed

text \<open>
  Claim C3 at a failing input. On the sample workspace the first \<open>list\<close> returns the two
  visible plugins and leaves the state \<open>sample_listed\<close>; the second, with the same
  manifest, returns three plugins, the hidden one included, and leaves the state unchanged
  (no store write, no reset).
\<close>

theorem list_twice_differs:
  "fst (list_plugins sample_env ''/ws'' default_list_options sample_server)
     = Returned [sample_bundle, sample_plugin_x]
   \<and> snd (list_plugins sample_env ''/ws'' default_list_options sample_server) = sample_listed
   \<and> fst (list_plugins sample_env ''/ws'' default_list_options sample_listed)
     = Returned [sample_bundle, sample_plugin_x, sample_babel]
   \<and> snd (list_plugins sample_env ''/ws'' default_list_options sample_listed) = sample_listed"
  by (simp add: sample_first_call sample_second_call)

text \<open>
  The part of idempotence that holds for every workspace: a second \<open>list\<close> after one that
  returned changes nothing in the state and returns the stored array.
\<close>

lemma resolve_package_cwd:
  "cwd t = cwd s \<Longrightarrow> resolve_package env file t = resolve_package env file s"
  by (simp add: resolve_package_def Let_def split: option.split)

lemma list_plugins_again:
  assumes first: "list_plugins env file opts s = (Returned ps, s1)"
  shows "list_plugins env file opts2 s1 = (Returned (getPlugins s1 file), s1)"
proof -
  obtain pkgContext pkg where rp: "resolve_package env file s = (pkgContext, pkg)"
    by (cases "resolve_package env file s")
  let ?plugins = "collect_plugins env pkg file"
  let ?sa = "s\<lparr> pkgStore := (pkgStore s)(file \<mapsto> (pkgContext, pkg)) \<rparr>"
  let ?sb = "?sa\<lparr> pluginsStore := (pluginsStore ?sa)(file \<mapsto> ?plugins),
                  log_lines := log_lines ?sa @ [''Plugins found: '' @ file] \<rparr>"
  have facts: "cwd s1 = cwd s \<and> pkgStore s1 file = Some (pkgContext, pkg)
               \<and> getPlugins s1 file = ?plugins"
  proof (cases "?plugins = getPlugins ?sa file")
    case True
    with first rp have "s1 = ?sa" by (simp add: list_plugins_def Let_def)
    with True show ?thesis by (simp add: getPlugins_def)
  next
    case False
    show ?thesis
    proof (cases "resetApi opts \<or> (autoLoadApi opts \<and> pluginApiInstances ?sb file = None)")
      case no: False
      with first rp False have "s1 = ?sb" by (auto simp: list_plugins_def Let_def)
      then show ?thesis by (simp add: getPlugins_def)
    next
      case True
      obtain r s3 where rs: "resetPluginApi env file (lightApi opts) ?sb = (r, s3)"
        by (cases "resetPluginApi env file (lightApi opts) ?sb")
      have k: "keeps_stores ?sb s3" using rs by (rule keeps_stores_resetPluginApi)
      from first rp False True rs have "s1 = s3"
        by (cases r) (auto simp: list_plugins_def Let_def)
      with k show ?thesis by (simp add: keeps_stores_def getPlugins_def)
    qed
  qed
  then have c: "cwd s1 = cwd s" and p: "pkgStore s1 file = Some (pkgContext, pkg)"
    and g: "getPlugins s1 file = ?plugins" by simp_all
  have rp1: "resolve_package env file s1 = (pkgContext, pkg)"
    using resolve_package_cwd [OF c] rp by simp
  have idem: "s1\<lparr> pkgStore := (pkgStore s1)(file \<mapsto> (pkgContext, pkg)) \<rparr> = s1"
    using p by (simp add: fun_upd_idem)
  have g1: "getPlugins (s1\<lparr> pkgStore := (pkgStore s1)(file \<mapsto> (pkgContext, pkg)) \<rparr>) file = ?plugins"
    using g by (simp add: getPlugins_def)
  show ?thesis
    unfolding list_plugins_def rp1 using g g1 idem by (simp add: Let_def)
qed

subsection \<open>\<open>update\<close>\<close>

lemma findOne_fst: "fst (findOne i file s) = find (\<lambda>p. plugin_id p = i) (getPlugins s file)"
  by (simp add: findOne_def split: option.split)

lemma findOne_keeps: "keeps_stores s (snd (findOne i file s))"
  by (simp add: findOne_def keeps_stores_def split: option.split)

lemma update_operation_ops:
  assumes v: "v = getVersion env (find (\<lambda>p. plugin_id p = i) (getPlugins s (cwd s)))"
  shows "(\<forall>lp. localPath v = Some lp \<and> lp \<noteq> [] \<longrightarrow>
            local_update env i lp full s (snd (update_operation env i full s)))
       \<and> (localPath v = None \<or> localPath v = Some [] \<longrightarrow>
            registry_update i s (snd (update_operation env i full s)))"
proof -
  let ?s1 = "s\<lparr> ui_calls := ui_calls s @ [SetProgress ''plugin-update'' [i]],
                  currentPluginId := Some i \<rparr>"
  obtain plugin s2 where f: "findOne i (cwd ?s1) ?s1 = (plugin, s2)"
    by (cases "findOne i (cwd ?s1) ?s1")
  have pl: "plugin = find (\<lambda>p. plugin_id p = i) (getPlugins s (cwd s))"
    using findOne_fst [of i "cwd ?s1" ?s1] f by (simp add: getPlugins_def)
  have vv: "getVersion env plugin = v" using v pl by simp
  have k2: "cwd s2 = cwd s \<and> fs_ops s2 = fs_ops s \<and> pm_ops s2 = pm_ops s"
    using findOne_keeps [of ?s1 i "cwd ?s1"] f by (simp add: keeps_stores_def)
  let ?s3 = "(case localPath v of
               None \<Rightarrow> s2\<lparr> pm_ops := pm_ops s2 @ [UpdatePackage (cwd s2) i] \<rparr>
             | Some lp \<Rightarrow>
                 (if lp = [] then s2\<lparr> pm_ops := pm_ops s2 @ [UpdatePackage (cwd s2) i] \<rparr>
                  else updateLocalPackage env i (cwd s2) lp full s2))"
  let ?s4 = "?s3\<lparr> ui_calls := ui_calls ?s3
                 @ [LogsAdd ''info'' (''Plugin '' @ i @ '' updated from '' @ current v
                                      @ '' to '' @ wanted v),
                    Notify ''Plugin updated'' (''Plugin '' @ i @ '' was successfully updated'')] \<rparr>"
  obtain r s5 where rs: "resetPluginApi env (cwd ?s4) False ?s4 = (r, s5)"
    by (cases "resetPluginApi env (cwd ?s4) False ?s4")
  have k5: "keeps_stores ?s4 s5" using rs by (rule keeps_stores_resetPluginApi)
  let ?s6 = "snd (findOne i (cwd s5)
                    (s5\<lparr> ui_calls := ui_calls s5 @ [InvalidatePackage i], currentPluginId := None \<rparr>))"
  have k6: "fs_ops ?s6 = fs_ops s5 \<and> pm_ops ?s6 = pm_ops s5"
    using findOne_keeps [of "s5\<lparr> ui_calls := ui_calls s5 @ [InvalidatePackage i],
                               currentPluginId := None \<rparr>" i "cwd s5"]
    by (simp add: keeps_stores_def)
  have fin: "fs_ops (snd (update_operation env i full s)) = fs_ops ?s3
           \<and> pm_ops (snd (update_operation env i full s)) = pm_ops ?s3"
  proof (cases r)
    case (Returned b)
    then have "snd (update_operation env i full s) = ?s6"
      using f vv rs by (simp add: update_operation_def Let_def split: prod.split)
    with k5 k6 show ?thesis by (simp add: keeps_stores_def)
  next
    case (Raised e)
    then have "snd (update_operation env i full s) = s5"
      using f vv rs by (simp add: update_operation_def Let_def)
    with k5 show ?thesis by (simp add: keeps_stores_def)
  next
    case Pending
    then have "snd (update_operation env i full s) = s5"
      using f vv rs by (simp add: update_operation_def Let_def)
    with k5 show ?thesis by (simp add: keeps_stores_def)
  qed
  show ?thesis
    using fin k2
    by (auto simp: local_update_def registry_update_def updateLocalPackage_def Let_def
             split: option.splits)
qed

lemma update_admitted_ops:
  assumes "''plugin-update'' \<notin> set (in_flight s)"
  shows "fs_ops (snd (update env i full s))
           = fs_ops (snd (update_operation env i full (s\<lparr> in_flight := ''plugin-update'' # in_flight s \<rparr>)))
       \<and> pm_ops (snd (update env i full s))
           = pm_ops (snd (update_operation env i full (s\<lparr> in_flight := ''plugin-update'' # in_flight s \<rparr>)))"
  using assms
  by (simp add: update_def progress_wrap_def progress_begin_def progress_end_def
        split: prod.split completion.split)

text \<open>
  Claim C7. Let \<open>update\<close> be admitted by the progress channel and \<open>v\<close> be the version
  information of the plugin found under the id. If \<open>v\<close> has a (non-empty) local path,
  \<open>update\<close> makes no package-manager call and its file operations are the resync: with
  \<open>full\<close> false a copy that skips paths containing \<open>.git\<close> or \<open>node_modules\<close>, otherwise
  the removal of the destination and a copy that skips paths containing \<open>.git\<close>. If \<open>v\<close>
  has no local path, \<open>update\<close> makes one package-manager update and no file operation.
\<close>

theorem update_local_or_registry:
  assumes adm: "''plugin-update'' \<notin> set (in_flight s)"
    and v: "v = getVersion env (find (\<lambda>p. plugin_id p = i) (getPlugins s (cwd s)))"
    and t: "t = snd (update env i full s)"
  shows "(\<forall>lp. localPath v = Some lp \<and> lp \<noteq> [] \<longrightarrow>
            pm_ops t = pm_ops s
          \<and> fs_ops t = fs_ops s
               @ (if full = Some False
                  then [FsCopy (path_resolve env [cwd s, lp])
                               (path_resolve env ([cwd s, ''node_modules''] @ split_char CHR ''/'' i))
                               [''.git'', ''node_modules'']]
                  else [FsRemove (path_resolve env ([cwd s, ''node_modules''] @ split_char CHR ''/'' i)),
                        FsCopy (path_resolve env [cwd s, lp])
                               (path_resolve env ([cwd s, ''node_modules''] @ split_char CHR ''/'' i))
                               [''.git'']]))
     \<and> (localPath v = None \<or> localPath v = Some [] \<longrightarrow>
            fs_ops t = fs_ops s \<and> pm_ops t = pm_ops s @ [UpdatePackage (cwd s) i])
     \<and> (\<forall>f. copy_keeps [''.git''] f = (\<not> occurs_in ''.git'' f))
     \<and> (\<forall>f. copy_keeps [''.git'', ''node_modules''] f
              = (\<not> occurs_in ''.git'' f \<and> \<not> occurs_in ''node_modules'' f))"
proof -
  let ?s0 = "s\<lparr> in_flight := ''plugin-update'' # in_flight s \<rparr>"
  have v0: "v = getVersion env (find (\<lambda>p. plugin_id p = i) (getPlugins ?s0 (cwd ?s0)))"
    using v by (simp add: getPlugins_def)
  have ops: "fs_ops t = fs_ops (snd (update_operation env i full ?s0))"
            "pm_ops t = pm_ops (snd (update_operation env i full ?s0))"
    using update_admitted_ops [OF adm] t by simp_all
  note u = update_operation_ops [OF v0, of full]
  have loc: "\<forall>lp. localPath v = Some lp \<and> lp \<noteq> [] \<longrightarrow>
            pm_ops t = pm_ops s
          \<and> fs_ops t = fs_ops s
               @ (if full = Some False
                  then [FsCopy (path_resolve env [cwd s, lp])
                               (path_resolve env ([cwd s, ''node_modules''] @ split_char CHR ''/'' i))
                               [''.git'', ''node_modules'']]
                  else [FsRemove (path_resolve env ([cwd s, ''node_modules''] @ split_char CHR ''/'' i)),
                        FsCopy (path_resolve env [cwd s, lp])
                               (path_resolve env ([cwd s, ''node_modules''] @ split_char CHR ''/'' i))
                               [''.git'']])"
  proof (intro allI impI)
    fix lp
    assume h: "localPath v = Some lp \<and> lp \<noteq> []"
    with u have "local_update env i lp full ?s0 (snd (update_operation env i full ?s0))"
      by blast
    then show "pm_ops t = pm_ops s
          \<and> fs_ops t = fs_ops s
               @ (if full = Some False
                  then [FsCopy (path_resolve env [cwd s, lp])
                               (path_resolve env ([cwd s, ''node_modules''] @ split_char CHR ''/'' i))
                               [''.git'', ''node_modules'']]
                  else [FsRemove (path_resolve env ([cwd s, ''node_modules''] @ split_char CHR ''/'' i)),
                        FsCopy (path_resolve env [cwd s, lp])
                               (path_resolve env ([cwd s, ''node_modules''] @ split_char CHR ''/'' i))
                               [''.git'']])"
      unfolding ops by (simp add: local_update_def Let_def)
  qed
  have reg: "localPath v = None \<or> localPath v = Some [] \<longrightarrow>
            fs_ops t = fs_ops s \<and> pm_ops t = pm_ops s @ [UpdatePackage (cwd s) i]"
  proof
    assume "localPath v = None \<or> localPath v = Some []"
    with u have "registry_update i ?s0 (snd (update_operation env i full ?s0))"
      by blast
    then show "fs_ops t = fs_ops s \<and> pm_ops t = pm_ops s @ [UpdatePackage (cwd s) i]"
      unfolding ops by (simp add: registry_update_def)
  qed
  have k1: "\<forall>f. copy_keeps [''.git''] f = (\<not> occurs_in ''.git'' f)"
    by (simp add: copy_keeps_def)
  have k2: "\<forall>f. copy_keeps [''.git'', ''node_modules''] f
              = (\<not> occurs_in ''.git'' f \<and> \<not> occurs_in ''node_modules'' f)"
    by (simp add: copy_keeps_def)
  from loc reg k1 k2 show ?thesis by (intro conjI)
qed

theorem update_local_or_registry_witness:
  "''plugin-update'' \<notin> set (in_flight sample_server)
   \<and> fs_ops (snd (update sample_env ''vue-cli-plugin-x'' None sample_server)) = []
   \<and> pm_ops (snd (update sample_env ''vue-cli-plugin-x'' None sample_server))
       = [UpdatePackage ''/ws'' ''vue-cli-plugin-x'']
   \<and> pm_ops (snd (update sample_env_local ''vue-cli-plugin-x'' (Some False) sample_server)) = []
   \<and> fs_ops (snd (update sample_env_local ''vue-cli-plugin-x'' (Some False) sample_server))
       = [FsCopy ''/ws/../x'' ''/ws/node_modules/vue-cli-plugin-x'' [''.git'', ''node_modules'']]"
proof -
  have adm: "''plugin-update'' \<notin> set (in_flight sample_server)"
    by (simp add: sample_server_def)
  have s0: "fs_ops sample_server = []" "pm_ops sample_server = []" "cwd sample_server = ''/ws''"
    by (simp_all add: sample_server_def)
  have v1: "localPath (getVersion sample_env plugin) = None" for plugin
    by (simp add: sample_env_def)
  have v2: "localPath (getVersion sample_env_local plugin) = Some ''../x''" for plugin
    by (simp add: sample_env_local_def)
  have p: "path_resolve sample_env_local [''/ws'', ''../x''] = ''/ws/../x''"
      "path_resolve sample_env_local ([''/ws'', ''node_modules''] @ split_char CHR ''/'' ''vue-cli-plugin-x'')
         = ''/ws/node_modules/vue-cli-plugin-x''"
    by (simp_all add: sample_env_local_def sample_env_def)
  note r = update_local_or_registry [OF adm refl refl, of sample_env "''vue-cli-plugin-x''" None]
  note l = update_local_or_registry [OF adm refl refl, of sample_env_local "''vue-cli-plugin-x''" "Some False"]
  have a: "fs_ops (snd (update sample_env ''vue-cli-plugin-x'' None sample_server)) = []
     \<and> pm_ops (snd (update sample_env ''vue-cli-plugin-x'' None sample_server))
       = [UpdatePackage ''/ws'' ''vue-cli-plugin-x'']"
    using r by (simp add: v1 s0)
  have b: "pm_ops (snd (update sample_env_local ''vue-cli-plugin-x'' (Some False) sample_server)) = []
     \<and> fs_ops (snd (update sample_env_local ''vue-cli-plugin-x'' (Some False) sample_server))
       = [FsCopy ''/ws/../x'' ''/ws/node_modules/vue-cli-plugin-x'' [''.git'', ''node_modules'']]"
    using l p by (simp add: v2 s0)
  from adm a b show ?thesis by simp
qed

subsection \<open>The progress ids of the lifecycle operations\<close>

lemma remove1_map_distinct:
  "distinct (map f xs) \<Longrightarrow> x \<in> set xs \<Longrightarrow> remove1 (f x) (map f xs) = map f (remove1 x xs)"
proof (induction xs)
  case Nil
  then show ?case by simp
next
  case (Cons y ys)
  show ?case
  proof (cases "y = x")
    case True
    then show ?thesis by simp
  next
    case False
    with Cons.prems have xin: "x \<in> set ys" by simp
    from Cons.prems have "f y \<notin> f ` set ys" by simp
    with xin have ne: "f y \<noteq> f x" by (metis imageI)
    from Cons.prems have "distinct (map f ys)" by simp
    with Cons.IH xin have "remove1 (f x) (map f ys) = map f (remove1 x ys)" by simp
    with False ne show ?thesis by simp
  qed
qed

lemma distinct_map_remove1: "distinct (map f xs) \<Longrightarrow> distinct (map f (remove1 x xs))"
proof -
  assume d: "distinct (map f xs)"
  then have "distinct xs" and inj: "inj_on f (set xs)" by (simp_all add: distinct_map)
  then have d1: "distinct (remove1 x xs)" by simp
  have "set (remove1 x xs) \<subseteq> set xs" by (rule set_remove1_subset)
  with inj have "inj_on f (set (remove1 x xs))" by (rule inj_on_subset)
  with d1 show ?thesis by (simp add: distinct_map)
qed

lemma at_most_one_with_key:
  "distinct (map f xs) \<Longrightarrow> \<forall>x\<in>set xs. P x \<longrightarrow> f x = k \<Longrightarrow> length (filter P xs) \<le> 1"
proof (induction xs)
  case Nil
  then show ?case by simp
next
  case (Cons y ys)
  show ?case
  proof (cases "P y")
    case False
    with Cons show ?thesis by simp
  next
    case True
    with Cons.prems have ky: "f y = k" by simp
    have "filter P ys = []"
    proof (rule ccontr)
      assume "filter P ys \<noteq> []"
      then obtain z where z: "z \<in> set ys" "P z"
        by (metis filter_False)
      with Cons.prems have "f z = k" by simp
      with ky z Cons.prems show False by (metis distinct.simps(2) imageI list.simps(9) list.set_map)
    qed
    with True show ?thesis by simp
  qed
qed

lemma before_wrap_in_flight:
  "before_wrap env op s = Inr s1 \<Longrightarrow> in_flight s1 = in_flight s"
  by (auto simp: before_wrap_def split: lifecycle_op.splits option.splits)

lemma channel_step_inv: "channel_inv ch \<Longrightarrow> channel_inv (channel_step how env c ch)"
proof -
  assume inv: "channel_inv ch"
  then have fl: "in_flight (srv ch) = map progress_id_of (running ch)"
    and d: "distinct (map progress_id_of (running ch))" by (simp_all add: channel_inv_def)
  show ?thesis
  proof (cases c)
    case (Start op)
    show ?thesis
    proof (cases "before_wrap env op (srv ch)")
      case (Inl e)
      with Start inv show ?thesis by (simp add: channel_inv_def)
    next
      case (Inr s1)
      then have "in_flight s1 = in_flight (srv ch)" by (rule before_wrap_in_flight)
      with Start Inr fl d show ?thesis
        by (cases how) (simp_all add: channel_inv_def progress_begin_def)
    qed
  next
    case (Finish op)
    show ?thesis
    proof (cases "op \<in> set (running ch)")
      case False
      with Finish inv show ?thesis by simp
    next
      case True
      let ?s1 = "progress_end (progress_id_of op) (srv ch)"
      let ?r1 = "remove1 op (running ch)"
      have fl1: "in_flight ?s1 = map progress_id_of ?r1"
        using True fl d by (simp add: progress_end_def remove1_map_distinct)
      have d1: "distinct (map progress_id_of ?r1)"
        using d by (rule distinct_map_remove1)
      show ?thesis
        using Finish True fl1 d1
        by (simp add: channel_inv_def Let_def progress_begin_def split: option.split)
    qed
  qed
qed

lemma channel_run_inv: "channel_inv ch \<Longrightarrow> channel_inv (channel_run how env calls ch)"
  unfolding channel_run_def
  by (induction calls arbitrary: ch) (simp_all add: channel_step_inv)

lemma mset_accounted_step:
  "mset (accounted (channel_step how env c ch))
     = mset (accounted ch) + mset (started [c])"
proof (cases c)
  case (Start op)
  then show ?thesis
    by (cases how)
       (simp_all add: accounted_def split: sum.split option.split)
next
  case (Finish op)
  show ?thesis
  proof (cases "op \<in> set (running ch)")
    case False
    with Finish show ?thesis by simp
  next
    case True
    have r: "mset (running ch) = add_mset op (mset (remove1 op (running ch)))"
      using True by simp
    have w: "mset (waiting ch) = add_mset w (mset (remove1 w (waiting ch)))"
      if "find (\<lambda>w. progress_id_of w = progress_id_of op) (waiting ch) = Some w" for w
      using find_Some_mem [OF that] by simp
    show ?thesis
    proof (cases "find (\<lambda>w. progress_id_of w = progress_id_of op) (waiting ch)")
      case None
      with Finish True show ?thesis
        by (simp add: accounted_def Let_def r del: mset_remove1)
    next
      case (Some x)
      show ?thesis
        using Finish True Some
        by (simp add: accounted_def Let_def r w [OF Some] del: mset_remove1 split: option.split)
    qed
  qed
qed

lemma started_append: "started (xs @ ys) = started xs @ started ys"
  by (induction xs rule: started.induct) auto

lemma mset_accounted_run:
  "mset (accounted (channel_run how env calls ch))
     = mset (accounted ch) + mset (started calls)"
proof (induction calls rule: rev_induct)
  case Nil
  then show ?case by (simp add: channel_run_def)
next
  case (snoc c calls)
  have "channel_run how env (calls @ [c]) ch
          = channel_step how env c (channel_run how env calls ch)"
    by (simp add: channel_run_def)
  then show ?case
    using snoc mset_accounted_step [of how env c "channel_run how env calls ch"]
    by (simp add: started_append)
qed

lemma reject_keeps_waiting_step:
  "waiting ch = [] \<Longrightarrow> waiting (channel_step Reject env c ch) = []"
  by (cases c) (simp_all add: Let_def split: sum.split option.split)

lemma queue_keeps_rejected_step:
  "rejected ch = [] \<Longrightarrow> rejected (channel_step Queue env c ch) = []"
  by (cases c) (simp_all add: Let_def split: sum.split option.split)

lemma reject_keeps_waiting_run:
  "waiting ch = [] \<Longrightarrow> waiting (channel_run Reject env calls ch) = []"
  unfolding channel_run_def
  by (induction calls arbitrary: ch) (simp_all add: reject_keeps_waiting_step)

lemma queue_keeps_rejected_run:
  "rejected ch = [] \<Longrightarrow> rejected (channel_run Queue env calls ch) = []"
  unfolding channel_run_def
  by (induction calls arbitrary: ch) (simp_all add: queue_keeps_rejected_step)

lemma refused_start:
  assumes inv: "channel_inv ch"
    and op: "op \<in> set (running ch)" and same: "progress_id_of op2 = progress_id_of op"
    and bw: "before_wrap env op2 (srv ch) = Inr s1"
  shows "channel_step how env (Start op2) ch
     = (case how of
          Reject \<Rightarrow> ch\<lparr> rejected := rejected ch @ [op2], srv := s1 \<rparr>
        | Queue \<Rightarrow> ch\<lparr> waiting := waiting ch @ [op2], srv := s1 \<rparr>)"
proof -
  have "in_flight s1 = map progress_id_of (running ch)"
    using before_wrap_in_flight [OF bw] inv by (simp add: channel_inv_def)
  with op same have "progress_id_of op2 \<in> set (in_flight s1)" by force
  then show ?thesis
    using bw by (simp add: progress_begin_def)
qed

lemma admitted_start:
  assumes inv: "channel_inv ch"
    and free: "progress_id_of op2 \<notin> progress_id_of ` set (running ch)"
    and bw: "before_wrap env op2 (srv ch) = Inr s1"
  shows "channel_step how env (Start op2) ch
     = ch\<lparr> running := op2 # running ch,
           srv := s1\<lparr> in_flight := progress_id_of op2 # in_flight s1 \<rparr> \<rparr>"
proof -
  have "in_flight s1 = map progress_id_of (running ch)"
    using before_wrap_in_flight [OF bw] inv by (simp add: channel_inv_def)
  with free have "progress_id_of op2 \<notin> set (in_flight s1)" by simp
  then show ?thesis
    using bw by (simp add: progress_begin_def)
qed

lemma finish_admits_waiting:
  assumes inv: "channel_inv ch" and op: "op \<in> set (running ch)"
  shows "running (channel_step how env (Finish op) ch)
     = (case find (\<lambda>w. progress_id_of w = progress_id_of op) (waiting ch) of
          None \<Rightarrow> remove1 op (running ch)
        | Some w \<Rightarrow> w # remove1 op (running ch))"
proof -
  from inv have fl: "in_flight (srv ch) = map progress_id_of (running ch)"
    and d: "distinct (map progress_id_of (running ch))" by (simp_all add: channel_inv_def)
  have fl1: "in_flight (progress_end (progress_id_of op) (srv ch))
               = map progress_id_of (remove1 op (running ch))"
    using op fl d by (simp add: progress_end_def remove1_map_distinct)
  have "progress_id_of op \<notin> set (remove1 (progress_id_of op) (map progress_id_of (running ch)))"
    using d by simp
  then have free: "progress_id_of op \<notin> set (map progress_id_of (remove1 op (running ch)))"
    using op d by (simp add: remove1_map_distinct)
  show ?thesis
  proof (cases "find (\<lambda>w. progress_id_of w = progress_id_of op) (waiting ch)")
    case None
    with op show ?thesis by (simp add: Let_def)
  next
    case (Some w)
    then have "progress_id_of w = progress_id_of op"
      by (auto simp: find_Some_iff)
    with free fl1 have "progress_id_of w
        \<notin> set (in_flight (progress_end (progress_id_of op) (srv ch)))" by simp
    with op Some show ?thesis by (simp add: Let_def progress_begin_def)
  qed
qed

text \<open>
  Claim C8, as amended. On a channel that admits one operation per progress id and queues
  or rejects a call whose id is in flight, after any sequence of calls and finishes from
  the idle state: no two operations in flight share a progress id; \<open>install\<close>,
  \<open>installLocal\<close>, \<open>uninstall\<close> and \<open>runInvoke\<close> share the id \<open>plugin-installation\<close>, so at
  most one of them is in flight; \<open>update\<close> has the id \<open>plugin-update\<close> and \<open>updateAll\<close> the
  id \<open>plugins-update\<close>, so each excludes only itself. Every called operation is in flight,
  waiting, rejected, finished or failed before the channel: none is dropped. A call whose
  id is in flight is put among the waiting or the rejected and not among those in flight;
  of the operation only what precedes \<open>progress.wrap\<close> has run, which is nothing except
  for \<open>installLocal\<close>, whose \<open>cwd.set\<close> has taken effect. A call whose id is free is
  admitted, and a finish admits the first waiting operation of the freed id.
\<close>

theorem progress_channel_exclusion:
  assumes idle: "in_flight s = []"
    and run: "ch = channel_run how env calls (idle_channel s)"
  shows "distinct (map progress_id_of (running ch))
    \<and> in_flight (srv ch) = map progress_id_of (running ch)
    \<and> length (filter (\<lambda>op. op \<in> {Install, InstallLocal, Uninstall, Invoke}) (running ch)) \<le> 1
    \<and> length (filter (\<lambda>op. op = Update) (running ch)) \<le> 1
    \<and> length (filter (\<lambda>op. op = UpdateAll) (running ch)) \<le> 1
    \<and> mset (running ch @ waiting ch @ rejected ch @ finished ch @ failed ch) = mset (started calls)
    \<and> (how = Reject \<longrightarrow> waiting ch = [])
    \<and> (how = Queue \<longrightarrow> rejected ch = [])
    \<and> (\<forall>op op2 s1. op \<in> set (running ch) \<and> progress_id_of op2 = progress_id_of op
            \<and> before_wrap env op2 (srv ch) = Inr s1 \<longrightarrow>
          channel_step how env (Start op2) ch
            = (case how of
                 Reject \<Rightarrow> ch\<lparr> rejected := rejected ch @ [op2], srv := s1 \<rparr>
               | Queue \<Rightarrow> ch\<lparr> waiting := waiting ch @ [op2], srv := s1 \<rparr>))
    \<and> (\<forall>op2 s1. progress_id_of op2 \<notin> progress_id_of ` set (running ch)
            \<and> before_wrap env op2 (srv ch) = Inr s1 \<longrightarrow>
          channel_step how env (Start op2) ch
            = ch\<lparr> running := op2 # running ch,
                  srv := s1\<lparr> in_flight := progress_id_of op2 # in_flight s1 \<rparr> \<rparr>)
    \<and> (\<forall>op. op \<in> set (running ch) \<longrightarrow>
          running (channel_step how env (Finish op) ch)
            = (case find (\<lambda>w. progress_id_of w = progress_id_of op) (waiting ch) of
                 None \<Rightarrow> remove1 op (running ch)
               | Some w \<Rightarrow> w # remove1 op (running ch)))
    \<and> (\<forall>op2. op2 \<noteq> InstallLocal \<longrightarrow> before_wrap env op2 (srv ch) = Inr (srv ch))
    \<and> (\<forall>p. getCurrent env = Some p \<longrightarrow>
          before_wrap env InstallLocal (srv ch) = Inr ((srv ch)\<lparr> cwd := project_path p \<rparr>))
    \<and> progress_id_of Install = PROGRESS_ID \<and> progress_id_of InstallLocal = PROGRESS_ID
    \<and> progress_id_of Uninstall = PROGRESS_ID \<and> progress_id_of Invoke = PROGRESS_ID
    \<and> progress_id_of Update = ''plugin-update'' \<and> progress_id_of UpdateAll = ''plugins-update''"
proof -
  have "channel_inv (idle_channel s)" using idle by (simp add: channel_inv_def idle_channel_def)
  then have inv: "channel_inv ch" unfolding run by (rule channel_run_inv)
  then have fl: "in_flight (srv ch) = map progress_id_of (running ch)"
    and d: "distinct (map progress_id_of (running ch))" by (simp_all add: channel_inv_def)
  have g: "length (filter (\<lambda>op. op \<in> {Install, InstallLocal, Uninstall, Invoke}) (running ch)) \<le> 1"
    by (rule at_most_one_with_key [OF d, of _ PROGRESS_ID]) (auto simp: progress_id_of_def)
  have u: "length (filter (\<lambda>op. op = Update) (running ch)) \<le> 1"
    by (rule at_most_one_with_key [OF d, of _ "''plugin-update''"]) (auto simp: progress_id_of_def)
  have a: "length (filter (\<lambda>op. op = UpdateAll) (running ch)) \<le> 1"
    by (rule at_most_one_with_key [OF d, of _ "''plugins-update''"]) (auto simp: progress_id_of_def)
  have acc: "mset (running ch @ waiting ch @ rejected ch @ finished ch @ failed ch) = mset (started calls)"
    using mset_accounted_run [of how env calls "idle_channel s"]
    by (simp add: run accounted_def idle_channel_def)
  have rj: "how = Reject \<longrightarrow> waiting ch = []"
    using reject_keeps_waiting_run [of "idle_channel s" env calls]
    by (simp add: run idle_channel_def)
  have qu: "how = Queue \<longrightarrow> rejected ch = []"
    using queue_keeps_rejected_run [of "idle_channel s" env calls]
    by (simp add: run idle_channel_def)
  have ref: "\<forall>op op2 s1. op \<in> set (running ch) \<and> progress_id_of op2 = progress_id_of op
            \<and> before_wrap env op2 (srv ch) = Inr s1 \<longrightarrow>
          channel_step how env (Start op2) ch
            = (case how of
                 Reject \<Rightarrow> ch\<lparr> rejected := rejected ch @ [op2], srv := s1 \<rparr>
               | Queue \<Rightarrow> ch\<lparr> waiting := waiting ch @ [op2], srv := s1 \<rparr>)"
    using refused_start [OF inv] by blast
  have adm: "\<forall>op2 s1. progress_id_of op2 \<notin> progress_id_of ` set (running ch)
            \<and> before_wrap env op2 (srv ch) = Inr s1 \<longrightarrow>
          channel_step how env (Start op2) ch
            = ch\<lparr> running := op2 # running ch,
                  srv := s1\<lparr> in_flight := progress_id_of op2 # in_flight s1 \<rparr> \<rparr>"
    using admitted_start [OF inv] by blast
  have fin: "\<forall>op. op \<in> set (running ch) \<longrightarrow>
          running (channel_step how env (Finish op) ch)
            = (case find (\<lambda>w. progress_id_of w = progress_id_of op) (waiting ch) of
                 None \<Rightarrow> remove1 op (running ch)
               | Some w \<Rightarrow> w # remove1 op (running ch))"
    using finish_admits_waiting [OF inv] by blast
  have bw1: "\<forall>op2. op2 \<noteq> InstallLocal \<longrightarrow> before_wrap env op2 (srv ch) = Inr (srv ch)"
    by (auto simp: before_wrap_def split: lifecycle_op.split)
  have bw2: "\<forall>p. getCurrent env = Some p \<longrightarrow>
          before_wrap env InstallLocal (srv ch) = Inr ((srv ch)\<lparr> cwd := project_path p \<rparr>)"
    by (simp add: before_wrap_def)
  have ids: "progress_id_of Install = PROGRESS_ID \<and> progress_id_of InstallLocal = PROGRESS_ID
    \<and> progress_id_of Uninstall = PROGRESS_ID \<and> progress_id_of Invoke = PROGRESS_ID
    \<and> progress_id_of Update = ''plugin-update'' \<and> progress_id_of UpdateAll = ''plugins-update''"
    by (simp add: progress_id_of_def)
  from d fl g u a acc rj qu ref adm fin bw1 bw2 ids show ?thesis by (intro conjI) simp_all
qed

lemmas channel_eval = channel_run_def before_wrap_def progress_begin_def progress_end_def
  progress_id_of_def PROGRESS_ID_def idle_channel_def Let_def

text \<open>
  Claim C8 as stated fails: \<open>install\<close> and \<open>update\<close> do not share a progress id, and on
  the idle channel both are admitted, so two lifecycle operations are in flight at once.
\<close>

theorem install_and_update_in_flight_together:
  "running (channel_run Reject sample_env [Start Install, Start Update] (idle_channel sample_server))
     = [Update, Install]
   \<and> running (channel_run Queue sample_env [Start Install, Start Update] (idle_channel sample_server))
     = [Update, Install]"
  by (simp add: channel_eval sample_server_def)

theorem progress_channel_exclusion_witness:
  "in_flight sample_server = []
   \<and> running (channel_run Reject sample_env
        [Start Install, Start Uninstall, Start Update, Finish Install, Start Invoke]
        (idle_channel sample_server)) = [Invoke, Update]
   \<and> rejected (channel_run Reject sample_env
        [Start Install, Start Uninstall, Start Update, Finish Install, Start Invoke]
        (idle_channel sample_server)) = [Uninstall]
   \<and> running (channel_run Queue sample_env
        [Start Install, Start InstallLocal, Start Update]
        (idle_channel sample_server)) = [Update, Install]
   \<and> waiting (channel_run Queue sample_env
        [Start Install, Start InstallLocal, Start Update]
        (idle_channel sample_server)) = [InstallLocal]
   \<and> cwd (srv (channel_run Queue sample_env
        [Start Install, Start InstallLocal, Start Update]
        (idle_channel sample_server))) = ''/current''
   \<and> running (channel_run Queue sample_env
        [Start Install, Start InstallLocal, Start Update, Finish Install]
        (idle_channel sample_server)) = [InstallLocal, Update]"
proof -
  have idle: "in_flight sample_server = []"
    by (simp add: sample_server_def)
  have gc: "getCurrent sample_env = Some \<lparr> project_id = ''p2'', project_path = ''/current'' \<rparr>"
    by (simp add: sample_env_def)
  let ?r = "channel_run Reject sample_env
        [Start Install, Start Uninstall, Start Update, Finish Install, Start Invoke]
        (idle_channel sample_server)"
  let ?q = "channel_run Queue sample_env
        [Start Install, Start InstallLocal, Start Update] (idle_channel sample_server)"
  let ?q2 = "channel_run Queue sample_env
        [Start Install, Start InstallLocal, Start Update, Finish Install]
        (idle_channel sample_server)"
  note t = progress_channel_exclusion [OF idle refl, of Reject sample_env
     "[Start Install, Start Uninstall, Start Update, Finish Install, Start Invoke]"]
  have r1: "running ?r = [Invoke, Update]" and r2: "rejected ?r = [Uninstall]"
    by (simp_all add: channel_eval gc sample_server_def)
  have q1: "running ?q = [Update, Install]" and q2: "waiting ?q = [InstallLocal]"
    and q3: "cwd (srv ?q) = ''/current''"
    by (simp_all add: channel_eval gc sample_server_def)
  have q4: "running ?q2 = [InstallLocal, Update]"
    by (simp add: channel_eval gc sample_server_def)
  from t have "distinct (map progress_id_of (running ?r))" by blast
  with idle r1 r2 q1 q2 q3 q4 show ?thesis by simp
qed

end
